theory Spec2Isabelle
  imports Complex_Main
begin

section \<open>The caching interpolant of \<open>cached_interpolate/interpolate.py\<close>\<close>

text \<open>
  The class \<open>CachingInterpolant\<close> keeps the knots, the values, a coefficient table and a
  locator cache (bracket indices and powers of the offsets) and evaluates the interpolant
  at query points. The model follows the class method by method. Numbers are reals (the
  comparisons of the locator are exact on floats as well; rounding is not modelled), arrays
  are lists, the object is a record that every method takes and returns, and every
  exception of the Python code is an \<open>Inl\<close> result. An exception ends the run: the
  object it leaves behind is not modelled. The backend is \<open>numpy\<close>; value arrays are
  real, so the complex branch of \<open>build\<close> does not arise.
\<close>

subsection \<open>Data\<close>

datatype error = ValueError | IndexError | AttributeError | TypeError | UnboundLocalError
  | BuildError string

text \<open>A query is a single number or a one-dimensional array.\<close>

datatype query = Scalar real | Array "real list"

text \<open>The coefficient table \<open>_data\<close>: a one-dimensional array (kind nearest) or a
  two-dimensional one, given by its rows (kinds linear and cubic).\<close>

datatype table = Row "real list" | Grid "real list list"

datatype outputs = Num real | Vec "real list" | Mat "real list list"

text \<open>
  The attributes of an instance. \<open>data\<close> is \<open>_data\<close> (\<open>None\<close> is Python's
  \<open>None\<close>), \<open>kind\<close> is \<open>_kind\<close>, \<open>cached\<close> is \<open>_cached\<close>; \<open>idxs\<close> and
  \<open>diffs'\<close> are \<open>_idxs\<close> and \<open>_diffs\<close>, which \<open>__init__\<close> does not create:
  \<open>None\<close> stands for the missing attribute.
\<close>

record interpolant =
  return_float :: bool
  x_array :: "real list"
  y_array :: "real list"
  data :: "table option"
  kind :: string
  cached :: bool
  idxs :: "nat list option"
  diffs' :: "real list list option"

text \<open>
  The two functions imported from the module \<open>build\<close>, which is not among the sources:
  they are parameters of the model. \<open>build_linear_interpolant\<close> returns a pair of
  arrays, \<open>build_natural_cubic_spline\<close> a tuple of arrays; either may raise.
\<close>

record build_module =
  build_linear_interpolant :: "real list \<Rightarrow> real list \<Rightarrow> error + real list \<times> real list"
  build_natural_cubic_spline :: "real list \<Rightarrow> real list \<Rightarrow> error + real list list"

subsection \<open>Array operations of the backend\<close>

text \<open>\<open>atleast_1d\<close>: a scalar becomes an array of one element.\<close>

fun atleast_1d :: "query \<Rightarrow> real list" where
  "atleast_1d (Scalar v) = [v]"
| "atleast_1d (Array vs) = vs"

text \<open>A two-dimensional array needs rows of one length; \<open>stack\<close> also needs a row.\<close>

definition rect :: "real list list \<Rightarrow> bool" where
  "rect rows = (case rows of [] \<Rightarrow> True | r # rs \<Rightarrow> list_all (\<lambda>q. length q = length r) rs)"

definition asarray :: "real list list \<Rightarrow> error + table" where
  "asarray rows = (if rect rows then Inr (Grid rows) else Inl ValueError)"

definition stack :: "real list list \<Rightarrow> error + table" where
  "stack rows = (if rows \<noteq> [] \<and> rect rows then Inr (Grid rows) else Inl ValueError)"

text \<open>The first error of a list of results, or all the values.\<close>

fun collect :: "(error + 'a) list \<Rightarrow> error + 'a list" where
  "collect [] = Inr []"
| "collect (Inl e # rs) = Inl e"
| "collect (Inr v # rs) = (case collect rs of Inl e \<Rightarrow> Inl e | Inr vs \<Rightarrow> Inr (v # vs))"

text \<open>Indexing an array by an array of indices: every index must be in range.\<close>

definition take_idx :: "'a list \<Rightarrow> nat list \<Rightarrow> error + 'a list" where
  "take_idx xs js = (if list_all (\<lambda>j. j < length xs) js then Inr (map (\<lambda>j. xs ! j) js)
                     else Inl IndexError)"

text \<open>\<open>argmin\<close>: the position of the first occurrence of the least element.\<close>

fun argmin_scan :: "nat \<Rightarrow> real \<Rightarrow> nat \<Rightarrow> real list \<Rightarrow> nat" where
  "argmin_scan best bv i [] = best"
| "argmin_scan best bv i (v # vs) =
     (if v < bv then argmin_scan i v (Suc i) vs else argmin_scan best bv (Suc i) vs)"

definition argmin :: "real list \<Rightarrow> error + nat" where
  "argmin vs = (case vs of [] \<Rightarrow> Inl ValueError | v # ws \<Rightarrow> Inr (argmin_scan 0 v 1 ws))"

text \<open>\<open>where(xval > x_array)[0]\<close>: the positions whose knot lies below \<open>xval\<close>.\<close>

definition where_gt :: "real \<Rightarrow> real list \<Rightarrow> nat list" where
  "where_gt xval xa = filter (\<lambda>j. xval > xa ! j) [0..<length xa]"

text \<open>Elementwise product with broadcasting, along one axis and along two.\<close>

definition broadcast :: "'a list \<Rightarrow> 'b list \<Rightarrow> error + ('a \<times> 'b) list" where
  "broadcast xs ys =
     (if length xs = length ys then Inr (zip xs ys)
      else if length xs = 1 then Inr (map (\<lambda>y. (hd xs, y)) ys)
      else if length ys = 1 then Inr (map (\<lambda>x. (x, hd ys)) xs)
      else Inl ValueError)"

definition mul1 :: "real list \<times> real list \<Rightarrow> error + real list" where
  "mul1 p = (case broadcast (fst p) (snd p) of Inl e \<Rightarrow> Inl e
             | Inr ps \<Rightarrow> Inr (map (\<lambda>(a, b). a * b) ps))"

definition mul2 :: "real list list \<Rightarrow> real list list \<Rightarrow> error + real list list" where
  "mul2 a b = (case broadcast a b of Inl e \<Rightarrow> Inl e | Inr ps \<Rightarrow> collect (map mul1 ps))"

text \<open>\<open>sum(..., axis=0)\<close>: the sum of the rows.\<close>

fun sum_axis0 :: "real list list \<Rightarrow> real list" where
  "sum_axis0 [] = []"
| "sum_axis0 [r] = r"
| "sum_axis0 (r # rs) = map2 (+) r (sum_axis0 rs)"

subsection \<open>The methods\<close>

text \<open>\<open>build\<close>: the coefficients for the current kind; \<open>None\<close> for any other kind.\<close>

definition build :: "build_module \<Rightarrow> interpolant \<Rightarrow> error + table option" where
  "build B s =
     (if kind s = ''cubic'' then
        (case build_natural_cubic_spline B (x_array s) (y_array s) of
           Inl e \<Rightarrow> Inl e
         | Inr rows \<Rightarrow> map_sum id Some (stack rows))
      else if kind s = ''linear'' then
        (case build_linear_interpolant B (x_array s) (y_array s) of
           Inl e \<Rightarrow> Inl e
         | Inr (aa, bb) \<Rightarrow> map_sum id Some (asarray [aa, bb]))
      else if kind s = ''nearest'' then Inr (Some (Row (y_array s)))
      else Inr None)"

text \<open>
  The setter of the property \<open>kind\<close>. It stores the kind and the coefficients built for
  it; \<open>asarray(list(data))\<close> gives the array it is applied to.
\<close>

definition kind_setter :: "build_module \<Rightarrow> interpolant \<Rightarrow> string \<Rightarrow> error + interpolant" where
  "kind_setter B s k =
     (let s1 = s\<lparr>kind := k\<rparr>
      in case build B s1 of Inl e \<Rightarrow> Inl e | Inr d \<Rightarrow> Inr (s1\<lparr>data := d\<rparr>))"

definition allowed_kinds :: "string list" where
  "allowed_kinds = [''nearest'', ''linear'', ''cubic'']"

text \<open>
  \<open>__init__\<close>. The attributes \<open>_kind\<close> and \<open>_cached\<close> do not exist before their
  assignments; the record holds the value they are assigned first.
\<close>

definition init :: "build_module \<Rightarrow> real list \<Rightarrow> real list \<Rightarrow> string \<Rightarrow> error + interpolant" where
  "init B x y k =
     (if k \<notin> set allowed_kinds then Inl ValueError
      else case kind_setter B
               \<lparr>return_float = False, x_array = x, y_array = y, data = None, kind = k,
                cached = False, idxs = None, diffs' = None\<rparr> k of
             Inl e \<Rightarrow> Inl e
           | Inr s \<Rightarrow> Inr (s\<lparr>cached := False\<rparr>))"

text \<open>The bracket index of one query point, for the kinds other than nearest.\<close>

definition bracket :: "real list \<Rightarrow> real \<Rightarrow> error + nat" where
  "bracket xa xval =
     (case xa of
        [] \<Rightarrow> Inl IndexError
      | x0 # _ \<Rightarrow>
          if xval \<le> x0 then Inr 0
          else (case where_gt xval xa of [] \<Rightarrow> Inl IndexError | j # js \<Rightarrow> Inr (last (j # js))))"

definition nearest_index :: "real list \<Rightarrow> real \<Rightarrow> error + nat" where
  "nearest_index xa xval = argmin (map (\<lambda>xk. \<bar>xval - xk\<bar>) xa)"

text \<open>\<open>_construct_cache\<close>.\<close>

definition construct_cache :: "interpolant \<Rightarrow> query \<Rightarrow> error + interpolant" where
  "construct_cache s x_values =
     (let xa = x_array s;
          xv = atleast_1d x_values;
          s1 = s\<lparr>return_float := (if length xv = 1 then True else return_float s),
                 cached := True\<rparr>
      in if kind s = ''nearest'' then
           (case collect (map (nearest_index xa) xv) of
              Inl e \<Rightarrow> Inl e
            | Inr js \<Rightarrow> Inr (s1\<lparr>idxs := Some js\<rparr>))
         else
           (case collect (map (bracket xa) xv) of
              Inl e \<Rightarrow> Inl e
            | Inr js \<Rightarrow>
                (case take_idx xa js of
                   Inl e \<Rightarrow> Inl e
                 | Inr ks \<Rightarrow>
                     (let d = map2 (-) xv ks;
                          ds = [map (\<lambda>_. 1) xv, d]
                      in Inr (s1\<lparr>idxs := Some js,
                                 diffs' := Some (if kind s = ''cubic''
                                                 then ds @ [map (\<lambda>v. v ^ 2) d, map (\<lambda>v. v ^ 3) d]
                                                 else ds)\<rparr>)))))"

text \<open>\<open>_call_nearest\<close>: \<open>self._data[self._idxs]\<close>.\<close>

definition call_nearest :: "interpolant \<Rightarrow> error + outputs" where
  "call_nearest s =
     (case idxs s of
        None \<Rightarrow> Inl AttributeError
      | Some js \<Rightarrow>
          (case data s of
             None \<Rightarrow> Inl TypeError
           | Some (Row r) \<Rightarrow> map_sum id Vec (take_idx r js)
           | Some (Grid rows) \<Rightarrow> map_sum id Mat (take_idx rows js)))"

text \<open>\<open>_call_linear\<close> and \<open>_call_cubic\<close> have one body:
  \<open>sum(self._data[:, self._idxs] * self._diffs, axis=0)\<close>.\<close>

definition call_poly :: "interpolant \<Rightarrow> error + outputs" where
  "call_poly s =
     (case idxs s of
        None \<Rightarrow> Inl AttributeError
      | Some js \<Rightarrow>
          (case data s of
             None \<Rightarrow> Inl TypeError
           | Some (Row r) \<Rightarrow> Inl IndexError
           | Some (Grid rows) \<Rightarrow>
               (case collect (map (\<lambda>r. take_idx r js) rows) of
                  Inl e \<Rightarrow> Inl e
                | Inr cols \<Rightarrow>
                    (case diffs' s of
                       None \<Rightarrow> Inl AttributeError
                     | Some ds \<Rightarrow> map_sum id (\<lambda>p. Vec (sum_axis0 p)) (mul2 cols ds)))))"

definition call_linear :: "interpolant \<Rightarrow> error + outputs" where
  "call_linear s = call_poly s"

definition call_cubic :: "interpolant \<Rightarrow> error + outputs" where
  "call_cubic s = call_poly s"

text \<open>\<open>out[0]\<close>.\<close>

fun first_of :: "outputs \<Rightarrow> error + outputs" where
  "first_of (Num v) = Inl IndexError"
| "first_of (Vec []) = Inl IndexError"
| "first_of (Vec (v # vs)) = Inr (Num v)"
| "first_of (Mat []) = Inl IndexError"
| "first_of (Mat (r # rs)) = Inr (Vec r)"

text \<open>The first statement of \<open>__call__\<close>: new values replace the value array and the
  coefficients.\<close>

definition update_values :: "build_module \<Rightarrow> interpolant \<Rightarrow> real list option \<Rightarrow> error + interpolant" where
  "update_values B s y =
     (case y of
        None \<Rightarrow> Inr s
      | Some yv \<Rightarrow>
          (let s1 = s\<lparr>y_array := yv\<rparr>
           in case build B s1 of Inl e \<Rightarrow> Inl e | Inr d \<Rightarrow> Inr (s1\<lparr>data := d\<rparr>)))"

text \<open>The dispatch on the kind; with any other kind \<open>out\<close> is unbound when it is read.\<close>

definition evaluate :: "interpolant \<Rightarrow> error + outputs" where
  "evaluate s =
     (if kind s = ''cubic'' then call_cubic s
      else if kind s = ''linear'' then call_linear s
      else if kind s = ''nearest'' then call_nearest s
      else Inl UnboundLocalError)"

definition finish :: "interpolant \<Rightarrow> error + outputs \<times> interpolant" where
  "finish s =
     (case evaluate s of
        Inl e \<Rightarrow> Inl e
      | Inr out \<Rightarrow>
          if return_float s
          then (case first_of out of Inl e \<Rightarrow> Inl e | Inr v \<Rightarrow> Inr (v, s))
          else Inr (out, s))"

text \<open>\<open>__call__\<close>: the result and the object after the call.\<close>

definition call :: "build_module \<Rightarrow> interpolant \<Rightarrow> query \<Rightarrow> real list option \<Rightarrow> bool
    \<Rightarrow> error + outputs \<times> interpolant" where
  "call B s x y use_cache =
     (case update_values B s y of
        Inl e \<Rightarrow> Inl e
      | Inr s1 \<Rightarrow>
          (case (if \<not> (cached s1 \<and> use_cache) then construct_cache s1 x else Inr s1) of
             Inl e \<Rightarrow> Inl e
           | Inr s2 \<Rightarrow> finish s2))"

subsection \<open>The coefficient builders of the specification\<close>

text \<open>
  Modelled from the spec: the interval widths \<open>h[j] = knots[j+1] - knots[j]\<close> and the
  slopes \<open>(values[j+1] - values[j]) / h[j]\<close> that the coefficient builder of the module
  \<open>build\<close> works with; the module is not among the sources.
\<close>

definition widths :: "real list \<Rightarrow> real list" where
  "widths xx = map (\<lambda>j. xx ! (j + 1) - xx ! j) [0..<length xx - 1]"

definition slopes :: "real list \<Rightarrow> real list \<Rightarrow> real list" where
  "slopes xx yy = map (\<lambda>j. (yy ! (j + 1) - yy ! j) / (xx ! (j + 1) - xx ! j)) [0..<length xx - 1]"

text \<open>
  Modelled from the spec: \<open>build_linear_interpolant\<close> of the module \<open>build\<close>, which is
  not among the sources. For each interval the value at its left knot and its slope;
  values of another length than the knots are a validation error.
\<close>

definition spec_build_linear :: "real list \<Rightarrow> real list \<Rightarrow> error + real list \<times> real list" where
  "spec_build_linear xx yy =
     (if length yy \<noteq> length xx then Inl ValueError
      else Inr (map (\<lambda>j. yy ! j) [0..<length xx - 1], slopes xx yy))"

text \<open>
  Modelled from the spec: the tridiagonal system of the natural cubic spline, which
  \<open>build_natural_cubic_spline\<close> of the absent module \<open>build\<close> solves. Row \<open>j\<close>, for
  \<open>1 \<le> j \<le> n - 2\<close>, is given by its lower, diagonal and upper entry and its right-hand
  side; it is solved for the second derivatives \<open>M\<close> by forward elimination and back
  substitution, with \<open>M[0] = M[n-1] = 0\<close>.
\<close>

definition spline_system :: "real list \<Rightarrow> real list \<Rightarrow> (real \<times> real \<times> real \<times> real) list" where
  "spline_system xx yy =
     (let h = widths xx; sl = slopes xx yy
      in map (\<lambda>j. (h ! (j - 1), 2 * (h ! (j - 1) + h ! j), h ! j, 6 * (sl ! j - sl ! (j - 1))))
           [1..<length xx - 1])"

fun forward_sweep :: "real \<Rightarrow> real \<Rightarrow> (real \<times> real \<times> real \<times> real) list \<Rightarrow> (real \<times> real) list" where
  "forward_sweep cp dp [] = []"
| "forward_sweep cp dp ((a, b, c, d) # rs) =
     (let m = b - a * cp; c' = c / m; d' = (d - a * dp) / m
      in (c', d') # forward_sweep c' d' rs)"

fun back_substitute :: "(real \<times> real) list \<Rightarrow> real list" where
  "back_substitute [] = []"
| "back_substitute ((c', d') # rs) =
     (let ms = back_substitute rs
      in (d' - c' * (case ms of [] \<Rightarrow> 0 | m # _ \<Rightarrow> m)) # ms)"

definition second_derivatives :: "real list \<Rightarrow> real list \<Rightarrow> real list" where
  "second_derivatives xx yy = 0 # back_substitute (forward_sweep 0 0 (spline_system xx yy)) @ [0]"

text \<open>
  Modelled from the spec: \<open>build_natural_cubic_spline\<close> of the module \<open>build\<close>, which is
  not among the sources. The four rows of coefficients of every interval, from the values,
  the widths and the second derivatives; values of another length than the knots and
  fewer than two knots are a validation error.
\<close>

definition spec_build_cubic :: "real list \<Rightarrow> real list \<Rightarrow> error + real list list" where
  "spec_build_cubic xx yy =
     (if length yy \<noteq> length xx \<or> length xx < 2 then Inl ValueError
      else
        (let h = widths xx; sl = slopes xx yy; M = second_derivatives xx yy;
             js = [0..<length xx - 1]
         in Inr [map (\<lambda>j. yy ! j) js,
                 map (\<lambda>j. sl ! j - h ! j * (2 * M ! j + M ! (j + 1)) / 6) js,
                 map (\<lambda>j. M ! j / 2) js,
                 map (\<lambda>j. (M ! (j + 1) - M ! j) / (6 * h ! j)) js]))"

text \<open>
  Modelled from the spec: the module \<open>build\<close> with these two builders. It instantiates
  the parameter wherever a concrete run is evaluated.
\<close>

definition spec_build :: build_module where
  "spec_build = \<lparr>build_linear_interpolant = spec_build_linear,
                  build_natural_cubic_spline = spec_build_cubic\<rparr>"

subsection \<open>The interpolants of the scenarios\<close>

text \<open>
  The objects the scenarios start from, written out: the interpolant that the constructor
  returns for the knots \<open>0, 1, 2, 3\<close> and the values \<open>0, 1, 0, 1\<close> with kind linear, the
  one for the knots \<open>0, 1, 2\<close> and the values \<open>0, 1, 0\<close> with kind nearest, and an
  object after a call has stored a locator cache.
\<close>

definition linear_0101 :: interpolant where
  "linear_0101 = \<lparr>return_float = False, x_array = [0, 1, 2, 3], y_array = [0, 1, 0, 1],
       data = Some (Grid [[0, 1, 0], [1, - 1, 1]]), kind = ''linear'', cached = False,
       idxs = None, diffs' = None\<rparr>"

definition nearest_010 :: interpolant where
  "nearest_010 = \<lparr>return_float = False, x_array = [0, 1, 2], y_array = [0, 1, 0],
       data = Some (Row [0, 1, 0]), kind = ''nearest'', cached = False,
       idxs = None, diffs' = None\<rparr>"

definition located :: "interpolant \<Rightarrow> bool \<Rightarrow> nat list \<Rightarrow> real list list \<Rightarrow> interpolant" where
  "located s f js ds = s\<lparr>return_float := f, cached := True, idxs := Some js, diffs' := Some ds\<rparr>"

subsection \<open>The table matches the kind\<close>

text \<open>
  Every method that writes \<open>_data\<close> builds it for the current kind, so in every object
  that the constructor, the setter of \<open>kind\<close> or a call returns, the table is a
  one-dimensional array for kind nearest, a two-dimensional one for the kinds linear and
  cubic, and \<open>None\<close> for any other kind.
\<close>

definition coherent :: "interpolant \<Rightarrow> bool" where
  "coherent s =
     (case data s of
        None \<Rightarrow> kind s \<notin> set allowed_kinds
      | Some (Row r) \<Rightarrow> kind s = ''nearest''
      | Some (Grid rows) \<Rightarrow> kind s = ''linear'' \<or> kind s = ''cubic'')"

section \<open>Auxiliary facts\<close>

subsection \<open>Objects and calls\<close>

lemma build_cong:
  "kind s = kind t \<Longrightarrow> x_array s = x_array t \<Longrightarrow> y_array s = y_array t \<Longrightarrow> build B s = build B t"
  by (simp add: build_def)

lemma construct_cache_values:
  "construct_cache (s\<lparr>y_array := v, data := d\<rparr>) q
     = map_sum id (\<lambda>t. t\<lparr>y_array := v, data := d\<rparr>) (construct_cache s q)"
  by (simp add: construct_cache_def Let_def split: sum.splits)

lemma finish_state: "finish s = Inr (out, t) \<Longrightarrow> t = s"
  by (auto simp: finish_def split: sum.splits if_splits)

lemma init_Inr:
  assumes "init B x y k = Inr s"
  shows "k \<in> set allowed_kinds"
    and "\<exists>d. build B \<lparr>return_float = False, x_array = x, y_array = y, data = None, kind = k,
                cached = False, idxs = None, diffs' = None\<rparr> = Inr d \<and>
           s = \<lparr>return_float = False, x_array = x, y_array = y, data = d, kind = k,
                cached = False, idxs = None, diffs' = None\<rparr>"
  using assms by (auto simp: init_def kind_setter_def Let_def split: if_splits sum.splits)

lemma update_values_Some:
  assumes "update_values B s (Some v) = Inr t"
  obtains d where "build B (s\<lparr>y_array := v\<rparr>) = Inr d" and "t = s\<lparr>y_array := v, data := d\<rparr>"
  using assms by (auto simp: update_values_def Let_def split: sum.splits)

lemma kind_setter_Inr:
  assumes "kind_setter B s k = Inr t"
  obtains d where "build B (s\<lparr>kind := k\<rparr>) = Inr d" and "t = s\<lparr>kind := k, data := d\<rparr>"
  using assms by (auto simp: kind_setter_def Let_def split: sum.splits)

lemma update_values_flags:
  assumes "update_values B s v = Inr t"
  shows "cached t = cached s" and "return_float t = return_float s"
    and "idxs t = idxs s" and "diffs' t = diffs' s" and "kind t = kind s" and "x_array t = x_array s"
proof -
  have "cached t = cached s \<and> return_float t = return_float s \<and> idxs t = idxs s
      \<and> diffs' t = diffs' s \<and> kind t = kind s \<and> x_array t = x_array s"
  proof (cases v)
    case None
    with assms show ?thesis by (simp add: update_values_def)
  next
    case (Some w)
    with assms obtain d where "t = s\<lparr>y_array := w, data := d\<rparr>"
      by (auto elim: update_values_Some)
    then show ?thesis by simp
  qed
  then show "cached t = cached s" and "return_float t = return_float s"
    and "idxs t = idxs s" and "diffs' t = diffs' s" and "kind t = kind s" and "x_array t = x_array s"
    by blast+
qed

lemma map_sum_Inr_iff: "map_sum f g x = Inr y \<longleftrightarrow> (\<exists>z. x = Inr z \<and> y = g z)"
  by (cases x) auto

lemma build_Grid_nonempty: "build B s = Inr (Some (Grid rows)) \<Longrightarrow> rows \<noteq> []"
  by (auto simp: build_def stack_def asarray_def split: if_splits sum.splits prod.splits)

lemma build_Inl:
  assumes "build B s = Inl e"
  shows "(kind s = ''linear''
           \<and> (build_linear_interpolant B (x_array s) (y_array s) = Inl e
               \<or> e = ValueError
                 \<and> (\<exists>aa bb. build_linear_interpolant B (x_array s) (y_array s) = Inr (aa, bb)
                       \<and> length aa \<noteq> length bb)))
       \<or> (kind s = ''cubic''
           \<and> (build_natural_cubic_spline B (x_array s) (y_array s) = Inl e
               \<or> e = ValueError
                 \<and> (\<exists>rows. build_natural_cubic_spline B (x_array s) (y_array s) = Inr rows
                       \<and> (rows = [] \<or> \<not> rect rows))))"
proof (cases "kind s = ''cubic''")
  case True
  show ?thesis
  proof (cases "build_natural_cubic_spline B (x_array s) (y_array s)")
    case (Inl e')
    with assms True show ?thesis by (simp add: build_def)
  next
    case (Inr rows)
    with assms True show ?thesis by (auto simp: build_def stack_def split: if_splits)
  qed
next
  case False
  show ?thesis
  proof (cases "kind s = ''linear''")
    case True
    show ?thesis
    proof (cases "build_linear_interpolant B (x_array s) (y_array s)")
      case (Inl e')
      with assms True show ?thesis by (simp add: build_def)
    next
      case (Inr p)
      obtain aa bb where p: "p = (aa, bb)" by (cases p)
      with Inr assms True show ?thesis
        by (auto simp: build_def asarray_def rect_def split: if_splits)
    qed
  next
    case nl: False
    with False assms show ?thesis by (simp add: build_def split: if_splits)
  qed
qed

subsection \<open>Results collected from a list\<close>

lemma collect_map_Inr: "collect (map Inr vs) = Inr vs"
  by (induction vs) auto

lemma collect_Inr_D: "collect rs = Inr vs \<Longrightarrow> rs = map Inr vs"
proof (induction rs arbitrary: vs)
  case Nil
  then show ?case by auto
next
  case (Cons r rs)
  then show ?case by (cases r) (auto split: sum.splits)
qed

lemma collect_Inr_iff: "collect rs = Inr vs \<longleftrightarrow> rs = map Inr vs"
  using collect_map_Inr collect_Inr_D by blast

lemma collect_Inl: "collect rs = Inl e \<Longrightarrow> Inl e \<in> set rs"
  by (induction rs rule: collect.induct) (auto split: sum.splits)

lemma collect_map_total:
  assumes "\<And>x. x \<in> set xs \<Longrightarrow> \<exists>v. f x = Inr v"
  shows "\<exists>vs. collect (map f xs) = Inr vs \<and> length vs = length xs \<and> (\<forall>i<length xs. f (xs ! i) = Inr (vs ! i))"
  using assms
proof (induction xs)
  case Nil
  then show ?case by simp
next
  case (Cons a xs)
  from Cons.prems obtain v where v: "f a = Inr v" by auto
  from Cons obtain vs where vs: "collect (map f xs) = Inr vs" "length vs = length xs"
    "\<forall>i<length xs. f (xs ! i) = Inr (vs ! i)" by auto
  have "\<forall>i<length (a # xs). f ((a # xs) ! i) = Inr ((v # vs) ! i)"
    using v vs(3) by (auto simp: nth_Cons split: nat.splits)
  with v vs show ?case by auto
qed

lemma collect_map_length: "collect (map f xs) = Inr ys \<Longrightarrow> length ys = length xs"
  by (drule collect_Inr_D) (metis length_map)

lemma take_idx_length: "take_idx xs js = Inr ys \<Longrightarrow> length ys = length js"
  by (auto simp: take_idx_def split: if_splits)

subsection \<open>The locator\<close>

lemma where_gt_set: "set (where_gt v xa) = {j. j < length xa \<and> xa ! j < v}"
  by (auto simp: where_gt_def)

lemma where_gt_sorted: "sorted (where_gt v xa)"
  by (simp add: where_gt_def sorted_wrt_filter)

lemma sorted_le_last: "sorted xs \<Longrightarrow> i \<in> set xs \<Longrightarrow> i \<le> last xs"
  for xs :: "nat list"
  by (induction xs) auto

lemma bracket_spec:
  assumes "xa \<noteq> []"
  shows "\<exists>j. bracket xa v = Inr j \<and> j < length xa \<and> (v \<le> xa ! 0 \<longrightarrow> j = 0)
           \<and> (xa ! 0 < v \<longrightarrow> xa ! j < v \<and> (\<forall>i<length xa. xa ! i < v \<longrightarrow> i \<le> j))"
proof (cases "v \<le> xa ! 0")
  case True
  with assms show ?thesis by (cases xa) (auto simp: bracket_def)
next
  case False
  with assms have "0 \<in> set (where_gt v xa)" by (simp add: where_gt_set)
  then obtain j js where w: "where_gt v xa = j # js" by (cases "where_gt v xa") auto
  let ?l = "last (j # js)"
  have "?l \<in> set (where_gt v xa)" unfolding w by (rule last_in_set) simp
  then have l: "?l < length xa" "xa ! ?l < v" by (simp_all add: where_gt_set)
  have "i \<le> ?l" if "i < length xa" "xa ! i < v" for i
  proof -
    from that have "i \<in> set (where_gt v xa)" by (simp add: where_gt_set)
    with where_gt_sorted[of v xa] show ?thesis unfolding w by (rule sorted_le_last[rotated -1, rotated])
  qed
  moreover have "bracket xa v = Inr ?l"
    using assms False w by (cases xa) (auto simp: bracket_def)
  ultimately show ?thesis using l False by auto
qed

lemma sorted_wrt_less_index:
  fixes xa :: "real list"
  assumes "sorted_wrt (<) xa" "j < length xa" "k < length xa" "xa ! j < xa ! k"
  shows "j < k"
proof (rule ccontr)
  assume "\<not> j < k"
  then have "k = j \<or> k < j" by auto
  then show False
  proof
    assume "k = j" with assms(4) show False by simp
  next
    assume "k < j"
    with assms(1,2) have "xa ! k < xa ! j" by (simp add: sorted_wrt_nth_less)
    with assms(4) show False by simp
  qed
qed

lemma bracket_above:
  assumes "sorted_wrt (<) xa" "xa \<noteq> []" "last xa < v"
  shows "bracket xa v = Inr (length xa - 1)"
proof -
  from assms(2) have n: "length xa - 1 < length xa" by (cases xa) auto
  from assms(2) have l: "last xa = xa ! (length xa - 1)" by (rule last_conv_nth)
  have "xa ! 0 \<le> xa ! (length xa - 1)"
  proof (cases "length xa - 1 = 0")
    case True
    then show ?thesis by simp
  next
    case False
    with assms(1) n have "xa ! 0 < xa ! (length xa - 1)" by (simp add: sorted_wrt_nth_less)
    then show ?thesis by simp
  qed
  with assms(3) l have z: "xa ! 0 < v" by simp
  from bracket_spec[OF assms(2), of v] z obtain j where j: "bracket xa v = Inr j" "j < length xa"
    "\<forall>i<length xa. xa ! i < v \<longrightarrow> i \<le> j" by blast
  from j(3) n assms(3) l have "length xa - 1 \<le> j" by simp
  with j(2) have "j = length xa - 1" by simp
  with j(1) show ?thesis by simp
qed

lemma argmin_scan_spec:
  assumes "best < length pre" "i = length pre" "bv = pre ! best"
    "\<forall>j<length pre. bv \<le> pre ! j" "\<forall>j<best. bv < pre ! j"
  shows "argmin_scan best bv i vs < length (pre @ vs)
     \<and> (\<forall>j<length (pre @ vs). (pre @ vs) ! argmin_scan best bv i vs \<le> (pre @ vs) ! j)
     \<and> (\<forall>j<argmin_scan best bv i vs. (pre @ vs) ! argmin_scan best bv i vs < (pre @ vs) ! j)"
  using assms
proof (induction vs arbitrary: pre best bv i)
  case Nil
  then show ?case by simp
next
  case (Cons v vs)
  show ?case
  proof (cases "v < bv")
    case True
    have "argmin_scan i v (Suc i) vs < length ((pre @ [v]) @ vs)
     \<and> (\<forall>j<length ((pre @ [v]) @ vs). ((pre @ [v]) @ vs) ! argmin_scan i v (Suc i) vs \<le> ((pre @ [v]) @ vs) ! j)
     \<and> (\<forall>j<argmin_scan i v (Suc i) vs. ((pre @ [v]) @ vs) ! argmin_scan i v (Suc i) vs < ((pre @ [v]) @ vs) ! j)"
    proof (rule Cons.IH)
      show "i < length (pre @ [v])" "Suc i = length (pre @ [v])" "v = (pre @ [v]) ! i"
        using Cons.prems(2) by simp_all
      show "\<forall>j<length (pre @ [v]). v \<le> (pre @ [v]) ! j"
        using Cons.prems(4) True by (auto simp: nth_append less_Suc_eq)
      show "\<forall>j<i. v < (pre @ [v]) ! j"
        using Cons.prems(2,4) True by (auto simp: nth_append)
    qed
    with True show ?thesis by simp
  next
    case False
    have "argmin_scan best bv (Suc i) vs < length ((pre @ [v]) @ vs)
     \<and> (\<forall>j<length ((pre @ [v]) @ vs). ((pre @ [v]) @ vs) ! argmin_scan best bv (Suc i) vs \<le> ((pre @ [v]) @ vs) ! j)
     \<and> (\<forall>j<argmin_scan best bv (Suc i) vs. ((pre @ [v]) @ vs) ! argmin_scan best bv (Suc i) vs < ((pre @ [v]) @ vs) ! j)"
    proof (rule Cons.IH)
      show "best < length (pre @ [v])" "Suc i = length (pre @ [v])" "bv = (pre @ [v]) ! best"
        using Cons.prems(1,2,3) by (simp_all add: nth_append)
      show "\<forall>j<length (pre @ [v]). bv \<le> (pre @ [v]) ! j"
        using Cons.prems(4) False by (auto simp: nth_append less_Suc_eq)
      show "\<forall>j<best. bv < (pre @ [v]) ! j"
        using Cons.prems(1,5) by (auto simp: nth_append)
    qed
    with False show ?thesis by simp
  qed
qed

lemma argmin_spec:
  assumes "vs \<noteq> []"
  shows "\<exists>r. argmin vs = Inr r \<and> r < length vs \<and> (\<forall>j<length vs. vs ! r \<le> vs ! j)
           \<and> (\<forall>j<r. vs ! r < vs ! j)"
proof -
  from assms obtain v ws where vs: "vs = v # ws" by (cases vs) auto
  from argmin_scan_spec[of 0 "[v]" 1 v ws] show ?thesis
    by (simp add: vs argmin_def)
qed

lemma construct_cache_poly:
  assumes "kind s \<noteq> ''nearest''" "x_array s \<noteq> []"
  shows "\<exists>js ds. construct_cache s q
            = Inr (s\<lparr>return_float := (if length (atleast_1d q) = 1 then True else return_float s),
                     cached := True, idxs := Some js, diffs' := Some ds\<rparr>)
          \<and> length js = length (atleast_1d q)
          \<and> (\<forall>i<length (atleast_1d q). bracket (x_array s) (atleast_1d q ! i) = Inr (js ! i))
          \<and> length ds = (if kind s = ''cubic'' then 4 else 2)
          \<and> list_all (\<lambda>d. length d = length (atleast_1d q)) ds"
proof -
  let ?xa = "x_array s" and ?xv = "atleast_1d q"
  have "\<exists>j. bracket ?xa v = Inr j" for v
    using bracket_spec[OF assms(2), of v] by blast
  then obtain js where js: "collect (map (bracket ?xa) ?xv) = Inr js" "length js = length ?xv"
    "\<forall>i<length ?xv. bracket ?xa (?xv ! i) = Inr (js ! i)"
    using collect_map_total[of ?xv "bracket ?xa"] by blast
  have "js ! i < length ?xa" if "i < length js" for i
    using bracket_spec[OF assms(2), of "?xv ! i"] js(2,3) that by auto
  then have "list_all (\<lambda>j. j < length ?xa) js"
    by (auto simp: list_all_length)
  then have t: "take_idx ?xa js = Inr (map (\<lambda>j. ?xa ! j) js)"
    by (simp add: take_idx_def)
  define ds where "ds = (let d = map2 (-) ?xv (map (\<lambda>j. ?xa ! j) js); b = [map (\<lambda>_. 1) ?xv, d]
                         in if kind s = ''cubic'' then b @ [map (\<lambda>v. v ^ 2) d, map (\<lambda>v. v ^ 3) d] else b)"
  have c: "construct_cache s q
            = Inr (s\<lparr>return_float := (if length ?xv = 1 then True else return_float s),
                     cached := True, idxs := Some js, diffs' := Some ds\<rparr>)"
    using assms(1) js(1) t by (simp add: construct_cache_def Let_def ds_def)
  have "length ds = (if kind s = ''cubic'' then 4 else 2)"
    by (simp add: ds_def Let_def)
  moreover have "list_all (\<lambda>d. length d = length ?xv) ds"
    by (simp add: ds_def Let_def js(2))
  ultimately show ?thesis using c js(2,3) by blast
qed

lemma construct_cache_nearest:
  assumes "kind s = ''nearest''" "x_array s \<noteq> []"
  shows "\<exists>js. construct_cache s q
            = Inr (s\<lparr>return_float := (if length (atleast_1d q) = 1 then True else return_float s),
                     cached := True, idxs := Some js\<rparr>)
          \<and> length js = length (atleast_1d q)
          \<and> (\<forall>i<length (atleast_1d q). nearest_index (x_array s) (atleast_1d q ! i) = Inr (js ! i))"
proof -
  let ?xa = "x_array s" and ?xv = "atleast_1d q"
  have "\<exists>j. nearest_index ?xa v = Inr j" for v
    using argmin_spec[of "map (\<lambda>xk. \<bar>v - xk\<bar>) ?xa"] assms(2) by (auto simp: nearest_index_def)
  then obtain js where js: "collect (map (nearest_index ?xa) ?xv) = Inr js" "length js = length ?xv"
    "\<forall>i<length ?xv. nearest_index ?xa (?xv ! i) = Inr (js ! i)"
    using collect_map_total[of ?xv "nearest_index ?xa"] by blast
  have "construct_cache s q
            = Inr (s\<lparr>return_float := (if length ?xv = 1 then True else return_float s),
                     cached := True, idxs := Some js\<rparr>)"
    using assms(1) js(1) by (simp add: construct_cache_def Let_def)
  with js(2,3) show ?thesis by blast
qed

lemma construct_cache_Inr_nearest:
  assumes "kind s = ''nearest''" "construct_cache s q = Inr t"
  obtains js where "collect (map (nearest_index (x_array s)) (atleast_1d q)) = Inr js"
    and "t = s\<lparr>return_float := (if length (atleast_1d q) = 1 then True else return_float s),
               cached := True, idxs := Some js\<rparr>"
proof (cases "collect (map (nearest_index (x_array s)) (atleast_1d q))")
  case (Inl e)
  with assms show ?thesis by (simp add: construct_cache_def Let_def)
next
  case (Inr js)
  with assms that show ?thesis by (simp add: construct_cache_def Let_def)
qed

lemma construct_cache_Inr_poly:
  assumes "kind s \<noteq> ''nearest''" "construct_cache s q = Inr t"
  obtains js ds where "collect (map (bracket (x_array s)) (atleast_1d q)) = Inr js"
    and "t = s\<lparr>return_float := (if length (atleast_1d q) = 1 then True else return_float s),
               cached := True, idxs := Some js, diffs' := Some ds\<rparr>"
    and "2 \<le> length ds" and "list_all (\<lambda>d. length d = length (atleast_1d q)) ds"
proof (cases "collect (map (bracket (x_array s)) (atleast_1d q))")
  case (Inl e)
  with assms show ?thesis by (simp add: construct_cache_def Let_def)
next
  case (Inr js)
  then have l: "length js = length (atleast_1d q)" by (rule collect_map_length)
  show ?thesis
  proof (cases "take_idx (x_array s) js")
    case (Inl e)
    with assms Inr show ?thesis by (simp add: construct_cache_def Let_def)
  next
    case ks: (Inr ks)
    then have lk: "length ks = length (atleast_1d q)" using l by (simp add: take_idx_length)
    define ds where "ds = (let d = map2 (-) (atleast_1d q) ks; b = [map (\<lambda>_. 1) (atleast_1d q), d]
                         in if kind s = ''cubic'' then b @ [map (\<lambda>v. v ^ 2) d, map (\<lambda>v. v ^ 3) d] else b)"
    have "t = s\<lparr>return_float := (if length (atleast_1d q) = 1 then True else return_float s),
               cached := True, idxs := Some js, diffs' := Some ds\<rparr>"
      using assms Inr ks by (simp add: construct_cache_def Let_def ds_def)
    moreover have "2 \<le> length ds" by (simp add: ds_def Let_def)
    moreover have "list_all (\<lambda>d. length d = length (atleast_1d q)) ds"
      by (simp add: ds_def Let_def lk)
    ultimately show ?thesis using that Inr by blast
  qed
qed

lemma construct_cache_Inr:
  assumes "construct_cache s q = Inr t"
  shows "\<exists>js. idxs t = Some js \<and> length js = length (atleast_1d q)"
    and "return_float t \<longleftrightarrow> length (atleast_1d q) = 1 \<or> return_float s"
    and "data t = data s" and "kind t = kind s" and "cached t"
    and "x_array t = x_array s" and "y_array t = y_array s"
proof -
  have "(\<exists>js. idxs t = Some js \<and> length js = length (atleast_1d q))
      \<and> (return_float t \<longleftrightarrow> length (atleast_1d q) = 1 \<or> return_float s)
      \<and> data t = data s \<and> kind t = kind s \<and> cached t
      \<and> x_array t = x_array s \<and> y_array t = y_array s"
  proof (cases "kind s = ''nearest''")
    case True
    from construct_cache_Inr_nearest[OF True assms] obtain js where
      c: "collect (map (nearest_index (x_array s)) (atleast_1d q)) = Inr js"
      and t: "t = s\<lparr>return_float := (if length (atleast_1d q) = 1 then True else return_float s),
               cached := True, idxs := Some js\<rparr>" by blast
    from c have "length js = length (atleast_1d q)" by (rule collect_map_length)
    with t show ?thesis by simp
  next
    case False
    from construct_cache_Inr_poly[OF False assms] obtain js ds where
      c: "collect (map (bracket (x_array s)) (atleast_1d q)) = Inr js"
      and t: "t = s\<lparr>return_float := (if length (atleast_1d q) = 1 then True else return_float s),
               cached := True, idxs := Some js, diffs' := Some ds\<rparr>" by blast
    from c have "length js = length (atleast_1d q)" by (rule collect_map_length)
    with t show ?thesis by simp
  qed
  then show "\<exists>js. idxs t = Some js \<and> length js = length (atleast_1d q)"
    and "return_float t \<longleftrightarrow> length (atleast_1d q) = 1 \<or> return_float s"
    and "data t = data s" and "kind t = kind s" and "cached t"
    and "x_array t = x_array s" and "y_array t = y_array s" by blast+
qed

lemma call_Inr:
  assumes "call B s q v u = Inr (out, t)"
  obtains s1 where "update_values B s v = Inr s1"
    and "(if \<not> (cached s1 \<and> u) then construct_cache s1 q else Inr s1) = Inr t"
    and "finish t = Inr (out, t)"
proof (cases "update_values B s v")
  case (Inl e)
  with assms show ?thesis by (simp add: call_def)
next
  case s1: (Inr s1)
  show ?thesis
  proof (cases "if \<not> (cached s1 \<and> u) then construct_cache s1 q else Inr s1")
    case (Inl e)
    with assms s1 show ?thesis by (simp add: call_def)
  next
    case (Inr s2)
    with assms s1 have f: "finish s2 = Inr (out, t)" by (simp add: call_def)
    then have "t = s2" by (rule finish_state)
    with f Inr s1 that show ?thesis by blast
  qed
qed

subsection \<open>The table matches the kind in every object\<close>

lemma build_coherent:
  "build B s = Inr d \<Longrightarrow> coherent (s\<lparr>data := d\<rparr>)"
  by (auto simp: build_def coherent_def stack_def asarray_def allowed_kinds_def
      split: if_splits sum.splits prod.splits)

lemma coherent_cong: "data t = data s \<Longrightarrow> kind t = kind s \<Longrightarrow> coherent t = coherent s"
  by (simp add: coherent_def split: option.splits table.splits)

lemma init_coherent:
  assumes "init B x y k = Inr s" shows "coherent s"
proof -
  from init_Inr(2)[OF assms] obtain d where
    b: "build B \<lparr>return_float = False, x_array = x, y_array = y, data = None, kind = k,
                cached = False, idxs = None, diffs' = None\<rparr> = Inr d"
    and s: "s = \<lparr>return_float = False, x_array = x, y_array = y, data = d, kind = k,
                cached = False, idxs = None, diffs' = None\<rparr>" by blast
  from build_coherent[OF b] show ?thesis by (simp add: s)
qed

lemma kind_setter_coherent: "kind_setter B s k = Inr t \<Longrightarrow> coherent t"
  by (auto simp: kind_setter_def Let_def dest!: build_coherent split: sum.splits)

lemma update_values_coherent:
  "coherent s \<Longrightarrow> update_values B s v = Inr t \<Longrightarrow> coherent t"
  by (cases v) (auto simp: update_values_def Let_def coherent_def dest!: build_coherent split: sum.splits)

lemma call_coherent:
  assumes "coherent s" "call B s q v u = Inr (out, t)"
  shows "coherent t"
proof -
  from assms(2) obtain s1 where s1: "update_values B s v = Inr s1"
    and s2: "(if \<not> (cached s1 \<and> u) then construct_cache s1 q else Inr s1) = Inr t"
    by (rule call_Inr)
  from assms(1) s1 have c1: "coherent s1" by (rule update_values_coherent)
  show ?thesis
  proof (cases "\<not> (cached s1 \<and> u)")
    case True
    with s2 have "construct_cache s1 q = Inr t" by simp
    from construct_cache_Inr(3,4)[OF this] have "coherent t = coherent s1" by (rule coherent_cong)
    with c1 show ?thesis by simp
  next
    case False
    with s2 have "t = s1" by simp
    with c1 show ?thesis by simp
  qed
qed

subsection \<open>The shape of the outputs\<close>

lemma sum_axis0_length:
  "p \<noteq> [] \<Longrightarrow> list_all (\<lambda>r. length r = m) p \<Longrightarrow> length (sum_axis0 p) = m"
  by (induction p rule: sum_axis0.induct) auto

lemma broadcast_Inr:
  assumes "broadcast xs ys = Inr ps"
  shows "set ps \<subseteq> set xs \<times> set ys" and "length ys \<noteq> 1 \<Longrightarrow> length ps = length ys"
proof -
  show "set ps \<subseteq> set xs \<times> set ys"
    using assms
    by (auto simp: broadcast_def length_Suc_conv split: if_splits dest: set_zip_leftD set_zip_rightD)
  show "length ps = length ys" if "length ys \<noteq> 1"
    using assms that by (auto simp: broadcast_def split: if_splits)
qed

lemma mul1_length:
  assumes "length c = m" "length d = m" shows "\<exists>r. mul1 (c, d) = Inr r \<and> length r = m"
  using assms by (simp add: mul1_def broadcast_def)

lemma call_poly_shape:
  assumes "call_poly t = Inr out" "idxs t = Some js" "diffs' t = Some ds"
    "2 \<le> length ds" "list_all (\<lambda>d. length d = length js) ds"
  shows "\<exists>vs. out = Vec vs \<and> length vs = length js"
proof -
  from assms(1,2,3) obtain rows cols p where d: "data t = Some (Grid rows)"
    and cols: "collect (map (\<lambda>r. take_idx r js) rows) = Inr cols"
    and p: "mul2 cols ds = Inr p" and out: "out = Vec (sum_axis0 p)"
    by (auto simp: call_poly_def map_sum_Inr_iff split: option.splits table.splits sum.splits)
  from cols have eq: "map (\<lambda>r. take_idx r js) rows = map Inr cols" by (rule collect_Inr_D)
  have "length (cols ! i) = length js" if "i < length cols" for i
  proof -
    from eq have "length rows = length cols" by (rule map_eq_imp_length_eq)
    with eq that have "take_idx (rows ! i) js = Inr (cols ! i)" by (metis nth_map)
    then show ?thesis by (rule take_idx_length)
  qed
  then have cl: "list_all (\<lambda>c. length c = length js) cols"
    by (simp add: list_all_length)
  from p obtain ps where ps: "broadcast cols ds = Inr ps" and c: "collect (map mul1 ps) = Inr p"
    by (auto simp: mul2_def split: sum.splits)
  from broadcast_Inr[OF ps] assms(4) have sub: "set ps \<subseteq> set cols \<times> set ds" and l: "length ps = length ds"
    by auto
  from c have m: "map mul1 ps = map Inr p" by (rule collect_Inr_D)
  then have lp: "length p = length ps" by (metis length_map)
  have "length (p ! i) = length js" if "i < length p" for i
  proof -
    from that lp have "ps ! i \<in> set ps" by simp
    with sub obtain a b where ab: "ps ! i = (a, b)" "a \<in> set cols" "b \<in> set ds" by auto
    with cl assms(5) have "length a = length js" "length b = length js" by (auto simp: list_all_iff)
    from mul1_length[OF this] obtain r where r: "mul1 (a, b) = Inr r" "length r = length js" by blast
    from m that lp have "mul1 (ps ! i) = Inr (p ! i)" by (metis nth_map)
    with r ab(1) show ?thesis by simp
  qed
  then have "list_all (\<lambda>r. length r = length js) p" by (simp add: list_all_length)
  moreover from lp l assms(4) have "p \<noteq> []" by auto
  ultimately have "length (sum_axis0 p) = length js" by (simp add: sum_axis0_length)
  with out show ?thesis by simp
qed

lemma call_nearest_shape:
  assumes "coherent t" "kind t = ''nearest''" "call_nearest t = Inr out" "idxs t = Some js"
  shows "\<exists>vs. out = Vec vs \<and> length vs = length js"
proof -
  from assms(1,2) obtain r where r: "data t = Some (Row r)"
    by (auto simp: coherent_def allowed_kinds_def split: option.splits table.splits)
  with assms(3,4) obtain vs where "take_idx r js = Inr vs" "out = Vec vs"
    by (auto simp: call_nearest_def map_sum_Inr_iff)
  then show ?thesis by (auto dest: take_idx_length)
qed

lemma evaluate_shape:
  assumes "coherent t" "evaluate t = Inr out" "idxs t = Some js"
    and "kind t \<noteq> ''nearest'' \<Longrightarrow>
           \<exists>ds. diffs' t = Some ds \<and> 2 \<le> length ds \<and> list_all (\<lambda>d. length d = length js) ds"
  shows "\<exists>vs. out = Vec vs \<and> length vs = length js"
proof (cases "kind t = ''nearest''")
  case True
  with assms(2) have "call_nearest t = Inr out" by (simp add: evaluate_def)
  from call_nearest_shape[OF assms(1) True this assms(3)] show ?thesis .
next
  case False
  with assms(2) have p: "call_poly t = Inr out"
    by (auto simp: evaluate_def call_linear_def call_cubic_def split: if_splits)
  from assms(4)[OF False] obtain ds where "diffs' t = Some ds" "2 \<le> length ds"
    "list_all (\<lambda>d. length d = length js) ds" by blast
  from call_poly_shape[OF p assms(3) this] show ?thesis .
qed

section \<open>The scenarios of the specification\<close>

text \<open>
  The model with the builders of the specification gives the results that the scenarios of
  the specification list: the linear interpolant over the knots \<open>0, 1, 2, 3\<close> with the
  values \<open>0, 1, 0, 1\<close> is \<open>1/2\<close> at \<open>1/2\<close> and at \<open>5/2\<close>; the nearest interpolant
  over \<open>0, 1, 2\<close> with the values \<open>0, 1, 0\<close> is \<open>0\<close> at \<open>2/5\<close> and \<open>1\<close> at \<open>3/5\<close>;
  the cubic interpolant takes the values at the knots.
\<close>

lemma scenario_linear:
  "init spec_build [0, 1, 2, 3] [0, 1, 0, 1] ''linear'' = Inr linear_0101
   \<and> map_sum id fst (call spec_build linear_0101 (Scalar (1/2)) None True) = Inr (Num (1/2))
   \<and> map_sum id fst (call spec_build linear_0101 (Scalar (5/2)) None True) = Inr (Num (1/2))"
  by code_simp

lemma scenario_nearest:
  "init spec_build [0, 1, 2] [0, 1, 0] ''nearest'' = Inr nearest_010
   \<and> map_sum id fst (call spec_build nearest_010 (Scalar (2/5)) None True) = Inr (Num 0)
   \<and> map_sum id fst (call spec_build nearest_010 (Scalar (3/5)) None True) = Inr (Num 1)"
  by code_simp

lemma scenario_cubic:
  "(case init spec_build [0, 1, 2, 3] [0, 1, 0, 1] ''cubic'' of
      Inl e \<Rightarrow> Inl e
    | Inr s \<Rightarrow> map_sum id fst (call spec_build s (Array [0, 1, 2, 3]) None True))
     = Inr (Vec [0, 1, 0, 1])"
  by code_simp

section \<open>The claims\<close>

subsection \<open>The cache changes no result\<close>

text \<open>
  Claim C1. Let an interpolant be constructed over knots \<open>x\<close> with values \<open>v1\<close>, and let
  a first call at the query \<open>q\<close> return. A second call at \<open>q\<close> with new values \<open>v2\<close>
  and \<open>use_cache=True\<close> then gives what a freshly constructed interpolant with values
  \<open>v2\<close> gives at \<open>q\<close> with \<open>use_cache=False\<close>: the same outputs, or the same error.
  This holds for every kind the constructor accepts, linear and cubic among them, for all
  builders and for value arrays of any length.
\<close>

theorem cache_correctness:
  assumes "init B x v1 k = Inr s0"
    and "call B s0 q None True = Inr (o1, s1)"
  shows "map_sum id fst (call B s1 q (Some v2) True)
       = (case init B x v2 k of Inl e \<Rightarrow> Inl e | Inr t0 \<Rightarrow> map_sum id fst (call B t0 q None False))"
proof -
  let ?blank = "\<lambda>y. \<lparr>return_float = False, x_array = x, y_array = y, data = None, kind = k,
                cached = False, idxs = None, diffs' = None\<rparr>"
  from init_Inr[OF assms(1)] obtain d1 where k: "k \<in> set allowed_kinds"
    and s0: "s0 = (?blank v1)\<lparr>data := d1\<rparr>" by auto
  from assms(2) have c1: "construct_cache s0 q = Inr s1"
    by (auto simp: call_def update_values_def s0 split: sum.splits dest: finish_state)
  then have cached1: "cached s1"
    by (auto simp: construct_cache_def Let_def split: sum.splits if_splits)
  have b: "build B (s1\<lparr>y_array := v2\<rparr>) = build B (?blank v2)"
    using c1 by (intro build_cong) (auto simp: s0 construct_cache_def Let_def split: sum.splits if_splits)
  show ?thesis
  proof (cases "build B (?blank v2)")
    case (Inl e)
    then show ?thesis using b k
      by (simp add: call_def update_values_def init_def kind_setter_def)
  next
    case (Inr d2)
    have t0: "init B x v2 k = Inr (s0\<lparr>y_array := v2, data := d2\<rparr>)"
      using Inr k by (simp add: init_def kind_setter_def s0)
    have "construct_cache (s0\<lparr>y_array := v2, data := d2\<rparr>) q = Inr (s1\<lparr>y_array := v2, data := d2\<rparr>)"
      by (simp add: construct_cache_values c1)
    then show ?thesis using Inr b cached1
      by (simp add: t0 call_def update_values_def s0)
  qed
qed

theorem cache_correctness_witness:
  "init spec_build [0, 1, 2, 3] [0, 1, 0, 1] ''linear'' = Inr linear_0101
   \<and> call spec_build linear_0101 (Array [1/2, 5/2]) None True
       = Inr (Vec [1/2, 1/2], located linear_0101 False [0, 2] [[1, 1], [1/2, 1/2]])
   \<and> map_sum id fst (call spec_build (located linear_0101 False [0, 2] [[1, 1], [1/2, 1/2]])
                        (Array [1/2, 5/2]) (Some [1, 0, 1, 0]) True)
       = Inr (Vec [1/2, 1/2])
   \<and> (case init spec_build [0, 1, 2, 3] [1, 0, 1, 0] ''linear'' of
         Inl e \<Rightarrow> Inl e
       | Inr t0 \<Rightarrow> map_sum id fst (call spec_build t0 (Array [1/2, 5/2]) None False))
       = Inr (Vec [1/2, 1/2])"
proof -
  have h1: "init spec_build [0, 1, 2, 3] [0, 1, 0, 1] ''linear'' = Inr linear_0101"
    by code_simp
  have h2: "call spec_build linear_0101 (Array [1/2, 5/2]) None True
       = Inr (Vec [1/2, 1/2], located linear_0101 False [0, 2] [[1, 1], [1/2, 1/2]])"
    by code_simp
  have h3: "map_sum id fst (call spec_build (located linear_0101 False [0, 2] [[1, 1], [1/2, 1/2]])
                        (Array [1/2, 5/2]) (Some [1, 0, 1, 0]) True)
       = Inr (Vec [1/2, 1/2])"
    by code_simp
  from cache_correctness [OF h1 h2, of "[1, 0, 1, 0]"] h1 h2 h3 show ?thesis
    by simp
qed

subsection \<open>A new query array with the cache in use\<close>

text \<open>
  Claim C2, as the code has it. \<open>__call__\<close> keeps no copy of the query array and tests
  only \<open>_cached\<close> and \<open>use_cache\<close>. After any call that returned, the cache is valid,
  and a further call with \<open>use_cache=True\<close> does not read its query argument: whatever
  the new query array is, it returns the outputs of the previous call once more and leaves
  the object as it is. The cache is rebuilt from the given query exactly when
  \<open>use_cache\<close> is false or no valid cache exists, and then the stored cache is the one
  of that query.
\<close>

theorem cache_reuse:
  "(call B s q1 v u = Inr (o1, s1) \<longrightarrow> cached s1 \<and> call B s1 q2 None True = Inr (o1, s1))
   \<and> (cached s \<longrightarrow> call B s q2 None True = finish s \<and> call B s q2 None True = call B s q1 None True)
   \<and> (\<not> (cached s \<and> u) \<longrightarrow>
        call B s q2 None u = (case construct_cache s q2 of Inl e \<Rightarrow> Inl e | Inr t \<Rightarrow> finish t))"
proof -
  have "cached s1 \<and> call B s1 q2 None True = Inr (o1, s1)" if r: "call B s q1 v u = Inr (o1, s1)"
  proof -
    from r obtain s' where c: "(if \<not> (cached s' \<and> u) then construct_cache s' q1 else Inr s') = Inr s1"
      and f: "finish s1 = Inr (o1, s1)"
      by (rule call_Inr)
    have "cached s1"
    proof (cases "\<not> (cached s' \<and> u)")
      case True
      with c have "construct_cache s' q1 = Inr s1" by simp
      then show ?thesis by (rule construct_cache_Inr(5))
    next
      case False
      with c show ?thesis by simp
    qed
    with f show ?thesis by (simp add: call_def update_values_def)
  qed
  moreover have "call B s q2 None True = finish s \<and> call B s q2 None True = call B s q1 None True"
    if "cached s"
    using that by (simp add: call_def update_values_def)
  moreover have "call B s q2 None u
       = (case construct_cache s q2 of Inl e \<Rightarrow> Inl e | Inr t \<Rightarrow> finish t)"
    if "\<not> (cached s \<and> u)"
    using that by (simp add: call_def update_values_def)
  ultimately show ?thesis by blast
qed

theorem cache_reuse_witness:
  "call spec_build linear_0101 (Array [1/2, 5/2]) None True
       = Inr (Vec [1/2, 1/2], located linear_0101 False [0, 2] [[1, 1], [1/2, 1/2]])
   \<and> cached (located linear_0101 False [0, 2] [[1, 1], [1/2, 1/2]])
   \<and> call spec_build (located linear_0101 False [0, 2] [[1, 1], [1/2, 1/2]]) (Array [1/4, 5/4]) None True
       = Inr (Vec [1/2, 1/2], located linear_0101 False [0, 2] [[1, 1], [1/2, 1/2]])
   \<and> call spec_build (located linear_0101 False [0, 2] [[1, 1], [1/2, 1/2]]) (Array [1/4, 5/4]) None True
       = call spec_build (located linear_0101 False [0, 2] [[1, 1], [1/2, 1/2]]) (Array [1/2, 5/2]) None True
   \<and> call spec_build (located linear_0101 False [0, 2] [[1, 1], [1/2, 1/2]]) (Array [1/4, 5/4]) None False
       = Inr (Vec [1/4, 3/4], located linear_0101 False [0, 1] [[1, 1], [1/4, 1/4]])"
proof -
  let ?s = "located linear_0101 False [0, 2] [[1, 1], [1/2, 1/2]]"
  have h: "call spec_build linear_0101 (Array [1/2, 5/2]) None True = Inr (Vec [1/2, 1/2], ?s)"
    by code_simp
  have r: "(case construct_cache ?s (Array [1/4, 5/4]) of Inl e \<Rightarrow> Inl e | Inr t \<Rightarrow> finish t)
       = Inr (Vec [1/4, 3/4], located linear_0101 False [0, 1] [[1, 1], [1/4, 1/4]])"
    by code_simp
  from cache_reuse [of spec_build linear_0101 "Array [1/2, 5/2]" None True "Vec [1/2, 1/2]" ?s
      "Array [1/4, 5/4]"] h
  have c: "cached ?s" and d: "call spec_build ?s (Array [1/4, 5/4]) None True = Inr (Vec [1/2, 1/2], ?s)"
    by blast+
  note t = cache_reuse [of spec_build ?s "Array [1/2, 5/2]" None False "Vec [1/2, 1/2]" ?s
      "Array [1/4, 5/4]"]
  from t c have a: "call spec_build ?s (Array [1/4, 5/4]) None True
       = call spec_build ?s (Array [1/2, 5/2]) None True" by blast
  from t have "call spec_build ?s (Array [1/4, 5/4]) None False
       = (case construct_cache ?s (Array [1/4, 5/4]) of Inl e \<Rightarrow> Inl e | Inr t \<Rightarrow> finish t)"
    by blast
  from this r have b: "call spec_build ?s (Array [1/4, 5/4]) None False
       = Inr (Vec [1/4, 3/4], located linear_0101 False [0, 1] [[1, 1], [1/4, 1/4]])"
    by (rule trans)
  from h c d a b show ?thesis by blast
qed

text \<open>
  The claim as stated fails: the linear interpolant over the knots \<open>0, 1, 2, 3\<close> with the
  values \<open>0, 1, 0, 1\<close> is called at \<open>[1/2, 5/2]\<close> and then, with \<open>use_cache=True\<close>, at
  \<open>[1/4, 5/4]\<close>. The second call returns \<open>[1/2, 1/2]\<close> again, and the bracket indices
  stay \<open>[0, 2]\<close>; the values at \<open>[1/4, 5/4]\<close> are \<open>[1/4, 3/4]\<close>.
\<close>

theorem cache_rebuild_counterexample:
  "init spec_build [0, 1, 2, 3] [0, 1, 0, 1] ''linear'' = Inr linear_0101
   \<and> call spec_build linear_0101 (Array [1/2, 5/2]) None True
       = Inr (Vec [1/2, 1/2], located linear_0101 False [0, 2] [[1, 1], [1/2, 1/2]])
   \<and> call spec_build (located linear_0101 False [0, 2] [[1, 1], [1/2, 1/2]]) (Array [1/4, 5/4]) None True
       = Inr (Vec [1/2, 1/2], located linear_0101 False [0, 2] [[1, 1], [1/2, 1/2]])
   \<and> call spec_build linear_0101 (Array [1/4, 5/4]) None True
       = Inr (Vec [1/4, 3/4], located linear_0101 False [0, 1] [[1, 1], [1/4, 1/4]])"
  by code_simp

subsection \<open>The scalar-result flag\<close>

text \<open>
  Claim C3, as the code has it by design. \<open>_construct_cache\<close> sets \<open>return_float\<close> when
  the query has exactly one element after \<open>atleast_1d\<close>: a single number, or an array of
  one element. On an interpolant whose flag is not yet set, a call that builds the locator
  cache and returns leaves the flag set exactly when the query has one element; in that
  case the result is a single number, and otherwise it is the full output sequence, as
  long as the query.
\<close>

theorem scalar_result:
  assumes "coherent s" and "\<not> return_float s" and "\<not> (cached s \<and> u)"
    and "call B s q v u = Inr (out, t)"
  shows "(return_float t \<longleftrightarrow> length (atleast_1d q) = 1)
       \<and> (length (atleast_1d q) = 1 \<longrightarrow> (\<exists>r. out = Num r))
       \<and> (length (atleast_1d q) \<noteq> 1 \<longrightarrow> (\<exists>rs. out = Vec rs \<and> length rs = length (atleast_1d q)))"
proof -
  let ?m = "length (atleast_1d q)"
  from assms(4) obtain s1 where s1: "update_values B s v = Inr s1"
    and s2: "(if \<not> (cached s1 \<and> u) then construct_cache s1 q else Inr s1) = Inr t"
    and f: "finish t = Inr (out, t)"
    by (rule call_Inr)
  from assms(1) s1 have c1: "coherent s1" by (rule update_values_coherent)
  from update_values_flags(1,2)[OF s1] assms(2,3) have n1: "\<not> return_float s1" "\<not> (cached s1 \<and> u)"
    by simp_all
  with s2 have cc: "construct_cache s1 q = Inr t" by simp
  from construct_cache_Inr(1)[OF cc] obtain js where js: "idxs t = Some js" "length js = ?m" by blast
  from construct_cache_Inr(2)[OF cc] n1(1) have rf: "return_float t \<longleftrightarrow> ?m = 1" by simp
  from construct_cache_Inr(3,4)[OF cc] have "coherent t = coherent s1" by (rule coherent_cong)
  with c1 have ct: "coherent t" by simp
  from f obtain o' where ev: "evaluate t = Inr o'" by (cases "evaluate t") (auto simp: finish_def)
  have d: "\<exists>ds. diffs' t = Some ds \<and> 2 \<le> length ds \<and> list_all (\<lambda>d. length d = length js) ds"
    if "kind t \<noteq> ''nearest''"
  proof -
    from that construct_cache_Inr(4)[OF cc] have "kind s1 \<noteq> ''nearest''" by simp
    from construct_cache_Inr_poly[OF this cc] obtain js' ds where
      "t = s1\<lparr>return_float := (if ?m = 1 then True else return_float s1),
               cached := True, idxs := Some js', diffs' := Some ds\<rparr>"
      "2 \<le> length ds" "list_all (\<lambda>d. length d = ?m) ds" by blast
    with js(2) show ?thesis by simp
  qed
  from evaluate_shape[OF ct ev js(1) d] obtain vs where vs: "o' = Vec vs" "length vs = ?m"
    using js(2) by auto
  show ?thesis
  proof (cases "?m = 1")
    case True
    with vs(2) obtain a where "vs = [a]" by (cases vs) auto
    with f ev vs(1) rf True have "out = Num a" by (simp add: finish_def)
    with rf True show ?thesis by simp
  next
    case False
    with f ev vs(1) rf have "out = Vec vs" by (simp add: finish_def)
    with rf False vs(2) show ?thesis by simp
  qed
qed

theorem scalar_result_witness:
  "coherent linear_0101 \<and> \<not> return_float linear_0101 \<and> \<not> (cached linear_0101 \<and> True)
   \<and> call spec_build linear_0101 (Array [1/2, 5/2]) None True
        = Inr (Vec [1/2, 1/2], located linear_0101 False [0, 2] [[1, 1], [1/2, 1/2]])
   \<and> \<not> return_float (located linear_0101 False [0, 2] [[1, 1], [1/2, 1/2]])
   \<and> call spec_build linear_0101 (Scalar (1/2)) None True
        = Inr (Num (1/2), located linear_0101 True [0] [[1], [1/2]])
   \<and> return_float (located linear_0101 True [0] [[1], [1/2]])"
proof -
  have h1: "coherent linear_0101" by (simp add: coherent_def linear_0101_def)
  have h2: "\<not> return_float linear_0101" by (simp add: linear_0101_def)
  have h3: "\<not> (cached linear_0101 \<and> True)" by (simp add: linear_0101_def)
  have h4: "call spec_build linear_0101 (Array [1/2, 5/2]) None True
        = Inr (Vec [1/2, 1/2], located linear_0101 False [0, 2] [[1, 1], [1/2, 1/2]])"
    by code_simp
  have h5: "call spec_build linear_0101 (Scalar (1/2)) None True
        = Inr (Num (1/2), located linear_0101 True [0] [[1], [1/2]])"
    by code_simp
  from scalar_result [OF h1 h2 h3 h4]
  have a: "\<not> return_float (located linear_0101 False [0, 2] [[1, 1], [1/2, 1/2]])" by simp
  from scalar_result [OF h1 h2 h3 h5]
  have b: "return_float (located linear_0101 True [0] [[1], [1/2]])" by simp
  from h1 h2 h3 h4 h5 a b show ?thesis by blast
qed

text \<open>
  The claim as stated fails: the query \<open>[1/2]\<close>, an array and not a scalar, sets the flag
  and is answered by the single number \<open>1/2\<close>.
\<close>

theorem scalar_flag_counterexample:
  "init spec_build [0, 1, 2, 3] [0, 1, 0, 1] ''linear'' = Inr linear_0101
   \<and> call spec_build linear_0101 (Array [1/2]) None True
        = Inr (Num (1/2), located linear_0101 True [0] [[1], [1/2]])
   \<and> return_float (located linear_0101 True [0] [[1], [1/2]])"
  by code_simp

text \<open>
  No statement of the class clears the flag. After the scalar query \<open>1/2\<close>, the query
  \<open>[1/2, 5/2]\<close> with \<open>use_cache=False\<close> is located anew and answered by its first
  output alone.
\<close>

lemma scalar_flag_stays_set:
  "call spec_build linear_0101 (Scalar (1/2)) None True
        = Inr (Num (1/2), located linear_0101 True [0] [[1], [1/2]])
   \<and> call spec_build (located linear_0101 True [0] [[1], [1/2]]) (Array [1/2, 5/2]) None False
        = Inr (Num (1/2), located linear_0101 True [0, 2] [[1, 1], [1/2, 1/2]])"
  by code_simp

subsection \<open>The locator for the kinds linear and cubic\<close>

text \<open>
  Claim C4, as the code has it. For a kind other than nearest and at least one knot,
  \<open>_construct_cache\<close> succeeds and stores one bracket index per query point: \<open>0\<close> when
  the query is at most the first knot, and otherwise the largest position whose knot is
  strictly below the query. So, with strictly increasing knots, a query equal to the knot
  at position \<open>k > 0\<close> receives \<open>k - 1\<close>, the interval that ends at that knot: the
  bracketing is left-continuous at the knots, not right-continuous.
\<close>

theorem bracket_locator:
  assumes "kind s \<noteq> ''nearest''" and "x_array s \<noteq> []"
  shows "\<exists>t js. construct_cache s q = Inr t \<and> idxs t = Some js
      \<and> length js = length (atleast_1d q)
      \<and> (\<forall>i<length js. js ! i < length (x_array s)
            \<and> (atleast_1d q ! i \<le> x_array s ! 0 \<longrightarrow> js ! i = 0)
            \<and> (x_array s ! 0 < atleast_1d q ! i \<longrightarrow>
                  x_array s ! (js ! i) < atleast_1d q ! i
                  \<and> (\<forall>j<length (x_array s). x_array s ! j < atleast_1d q ! i \<longrightarrow> j \<le> js ! i))
            \<and> (\<forall>k. sorted_wrt (<) (x_array s) \<and> 0 < k \<and> k < length (x_array s)
                     \<and> atleast_1d q ! i = x_array s ! k \<longrightarrow> js ! i = k - 1))"
proof -
  let ?xa = "x_array s" and ?xv = "atleast_1d q"
  from construct_cache_poly[OF assms, of q] obtain js ds where
    c: "construct_cache s q
            = Inr (s\<lparr>return_float := (if length ?xv = 1 then True else return_float s),
                     cached := True, idxs := Some js, diffs' := Some ds\<rparr>)"
    and l: "length js = length ?xv"
    and n: "\<forall>i<length ?xv. bracket ?xa (?xv ! i) = Inr (js ! i)" by blast
  have "js ! i < length ?xa
            \<and> (?xv ! i \<le> ?xa ! 0 \<longrightarrow> js ! i = 0)
            \<and> (?xa ! 0 < ?xv ! i \<longrightarrow>
                  ?xa ! (js ! i) < ?xv ! i \<and> (\<forall>j<length ?xa. ?xa ! j < ?xv ! i \<longrightarrow> j \<le> js ! i))
            \<and> (\<forall>k. sorted_wrt (<) ?xa \<and> 0 < k \<and> k < length ?xa \<and> ?xv ! i = ?xa ! k
                     \<longrightarrow> js ! i = k - 1)"
    if i: "i < length js" for i
  proof -
    from bracket_spec[OF assms(2), of "?xv ! i"] n i l
    have b: "js ! i < length ?xa" "?xv ! i \<le> ?xa ! 0 \<longrightarrow> js ! i = 0"
      "?xa ! 0 < ?xv ! i \<longrightarrow> ?xa ! (js ! i) < ?xv ! i
          \<and> (\<forall>j<length ?xa. ?xa ! j < ?xv ! i \<longrightarrow> j \<le> js ! i)"
      by auto
    have "js ! i = k - 1"
      if k: "sorted_wrt (<) ?xa" "0 < k" "k < length ?xa" "?xv ! i = ?xa ! k" for k
    proof -
      from k have "?xa ! 0 < ?xa ! k" by (simp add: sorted_wrt_nth_less)
      with b(3) k(4) have u: "?xa ! (js ! i) < ?xa ! k"
        and m: "\<forall>j<length ?xa. ?xa ! j < ?xa ! k \<longrightarrow> j \<le> js ! i" by simp_all
      from sorted_wrt_less_index[OF k(1) b(1) k(3) u] have "js ! i < k" .
      moreover from k have "?xa ! (k - 1) < ?xa ! k" by (simp add: sorted_wrt_nth_less)
      with m k(3) have "k - 1 \<le> js ! i" by simp
      ultimately show ?thesis by simp
    qed
    with b show ?thesis by blast
  qed
  with c l show ?thesis by simp
qed

theorem bracket_locator_witness:
  "kind linear_0101 \<noteq> ''nearest'' \<and> x_array linear_0101 \<noteq> []
   \<and> sorted_wrt (<) (x_array linear_0101)
   \<and> construct_cache linear_0101 (Array [- 1, 1/2, 2, 7/2])
        = Inr (located linear_0101 False [0, 0, 1, 3] [[1, 1, 1, 1], [- 1, 1/2, 1, 1/2]])
   \<and> (\<exists>t js. construct_cache linear_0101 (Array [- 1, 1/2, 2, 7/2]) = Inr t \<and> idxs t = Some js
      \<and> length js = length (atleast_1d (Array [- 1, 1/2, 2, 7/2]))
      \<and> (\<forall>i<length js. js ! i < length (x_array linear_0101)
            \<and> (atleast_1d (Array [- 1, 1/2, 2, 7/2]) ! i \<le> x_array linear_0101 ! 0 \<longrightarrow> js ! i = 0)
            \<and> (x_array linear_0101 ! 0 < atleast_1d (Array [- 1, 1/2, 2, 7/2]) ! i \<longrightarrow>
                  x_array linear_0101 ! (js ! i) < atleast_1d (Array [- 1, 1/2, 2, 7/2]) ! i
                  \<and> (\<forall>j<length (x_array linear_0101).
                        x_array linear_0101 ! j < atleast_1d (Array [- 1, 1/2, 2, 7/2]) ! i \<longrightarrow> j \<le> js ! i))
            \<and> (\<forall>k. sorted_wrt (<) (x_array linear_0101) \<and> 0 < k \<and> k < length (x_array linear_0101)
                     \<and> atleast_1d (Array [- 1, 1/2, 2, 7/2]) ! i = x_array linear_0101 ! k
                  \<longrightarrow> js ! i = k - 1)))"
proof -
  have h1: "kind linear_0101 \<noteq> ''nearest''" and h2: "x_array linear_0101 \<noteq> []"
    and h3: "sorted_wrt (<) (x_array linear_0101)"
    by (simp_all add: linear_0101_def)
  have h4: "construct_cache linear_0101 (Array [- 1, 1/2, 2, 7/2])
        = Inr (located linear_0101 False [0, 0, 1, 3] [[1, 1, 1, 1], [- 1, 1/2, 1, 1/2]])"
    by code_simp
  from bracket_locator [OF h1 h2, of "Array [- 1, 1/2, 2, 7/2]"] h1 h2 h3 h4 show ?thesis by blast
qed

text \<open>
  The claim as stated fails on its last part: over the knots \<open>0, 1, 2, 3\<close> the query
  \<open>1\<close>, an interior knot, receives the bracket index \<open>0\<close>, the interval from \<open>0\<close> to
  \<open>1\<close>, and not the index \<open>1\<close> of the interval that starts at that knot.
\<close>

theorem bracket_on_knot_counterexample:
  "bracket [0, 1, 2, 3] 1 = Inr 0
   \<and> construct_cache linear_0101 (Scalar 1) = Inr (located linear_0101 True [0] [[1], [1]])"
  by code_simp

subsection \<open>The locator for kind nearest\<close>

text \<open>
  Claim C5. For kind nearest and at least one knot, \<open>_construct_cache\<close> succeeds and
  stores one index per query point. The index is a position of the knot array whose knot
  is at least as close to the query point as every knot, and every knot at a lower
  position is strictly farther away: the index minimises the distance, and among
  equidistant knots it is the lowest.
\<close>

theorem nearest_locator:
  assumes "kind s = ''nearest''" and "x_array s \<noteq> []"
  shows "\<exists>t js. construct_cache s q = Inr t \<and> idxs t = Some js
      \<and> length js = length (atleast_1d q)
      \<and> (\<forall>i<length js. js ! i < length (x_array s)
            \<and> (\<forall>j<length (x_array s).
                  \<bar>atleast_1d q ! i - x_array s ! (js ! i)\<bar> \<le> \<bar>atleast_1d q ! i - x_array s ! j\<bar>)
            \<and> (\<forall>j<js ! i.
                  \<bar>atleast_1d q ! i - x_array s ! (js ! i)\<bar> < \<bar>atleast_1d q ! i - x_array s ! j\<bar>))"
proof -
  let ?xa = "x_array s" and ?xv = "atleast_1d q"
  from construct_cache_nearest[OF assms, of q] obtain js where
    c: "construct_cache s q
            = Inr (s\<lparr>return_float := (if length ?xv = 1 then True else return_float s),
                     cached := True, idxs := Some js\<rparr>)"
    and l: "length js = length ?xv"
    and n: "\<forall>i<length ?xv. nearest_index ?xa (?xv ! i) = Inr (js ! i)" by blast
  have "js ! i < length ?xa
            \<and> (\<forall>j<length ?xa. \<bar>?xv ! i - ?xa ! (js ! i)\<bar> \<le> \<bar>?xv ! i - ?xa ! j\<bar>)
            \<and> (\<forall>j<js ! i. \<bar>?xv ! i - ?xa ! (js ! i)\<bar> < \<bar>?xv ! i - ?xa ! j\<bar>)"
    if i: "i < length js" for i
  proof -
    let ?d = "map (\<lambda>xk. \<bar>?xv ! i - xk\<bar>) ?xa"
    from assms(2) have "?d \<noteq> []" by simp
    from argmin_spec[OF this] obtain r where r: "argmin ?d = Inr r" "r < length ?d"
      "\<forall>j<length ?d. ?d ! r \<le> ?d ! j" "\<forall>j<r. ?d ! r < ?d ! j" by blast
    from n i l have "argmin ?d = Inr (js ! i)" by (simp add: nearest_index_def)
    with r(1) have e: "js ! i = r" by simp
    from r(2,3,4) show ?thesis unfolding e by simp
  qed
  with c l show ?thesis by simp
qed

theorem nearest_locator_witness:
  "kind nearest_010 = ''nearest'' \<and> x_array nearest_010 \<noteq> []
   \<and> construct_cache nearest_010 (Array [2/5, 1/2, 3/2])
        = Inr (nearest_010\<lparr>cached := True, idxs := Some [0, 0, 1]\<rparr>)
   \<and> (\<exists>t js. construct_cache nearest_010 (Array [2/5, 1/2, 3/2]) = Inr t \<and> idxs t = Some js
      \<and> length js = length (atleast_1d (Array [2/5, 1/2, 3/2]))
      \<and> (\<forall>i<length js. js ! i < length (x_array nearest_010)
            \<and> (\<forall>j<length (x_array nearest_010).
                  \<bar>atleast_1d (Array [2/5, 1/2, 3/2]) ! i - x_array nearest_010 ! (js ! i)\<bar>
                    \<le> \<bar>atleast_1d (Array [2/5, 1/2, 3/2]) ! i - x_array nearest_010 ! j\<bar>)
            \<and> (\<forall>j<js ! i.
                  \<bar>atleast_1d (Array [2/5, 1/2, 3/2]) ! i - x_array nearest_010 ! (js ! i)\<bar>
                    < \<bar>atleast_1d (Array [2/5, 1/2, 3/2]) ! i - x_array nearest_010 ! j\<bar>)))"
proof -
  have h1: "kind nearest_010 = ''nearest''" and h2: "x_array nearest_010 \<noteq> []"
    by (simp_all add: nearest_010_def)
  have h3: "construct_cache nearest_010 (Array [2/5, 1/2, 3/2])
        = Inr (nearest_010\<lparr>cached := True, idxs := Some [0, 0, 1]\<rparr>)"
    by code_simp
  from nearest_locator [OF h1 h2, of "Array [2/5, 1/2, 3/2]"] h1 h2 h3 show ?thesis by blast
qed

subsection \<open>Queries above the last knot\<close>

text \<open>
  Claim C6 does not hold of the code. Take an interpolant of kind linear or cubic over
  strictly increasing knots \<open>x\<close> whose coefficient table has \<open>length x - 1\<close> columns, and
  a query that contains a point above the last knot. The locator gives that point the
  bracket index \<open>length x - 1\<close>, and \<open>self._data[:, self._idxs]\<close> then reads one column
  past the table: the call raises \<open>IndexError\<close>. Queries at or below the first knot are
  given the index \<open>0\<close> and evaluate.
\<close>

theorem above_last_knot:
  assumes "init B x y k = Inr s" and "k = ''linear'' \<or> k = ''cubic''"
    and "sorted_wrt (<) x" and "x \<noteq> []"
    and "data s = Some (Grid rows)" and "list_all (\<lambda>r. length r = length x - 1) rows"
    and "v \<in> set (atleast_1d q)" and "last x < v"
  shows "call B s q None u = Inl IndexError"
proof -
  from init_Inr(2)[OF assms(1)] obtain d where
    b: "build B \<lparr>return_float = False, x_array = x, y_array = y, data = None, kind = k,
                cached = False, idxs = None, diffs' = None\<rparr> = Inr d"
    and s: "s = \<lparr>return_float = False, x_array = x, y_array = y, data = d, kind = k,
                cached = False, idxs = None, diffs' = None\<rparr>" by blast
  from s assms(5) have d: "d = Some (Grid rows)" by simp
  from b d have "rows \<noteq> []" by (simp add: build_Grid_nonempty)
  then obtain r rs where rows: "rows = r # rs" by (cases rows) auto
  with assms(6) have r: "length r = length x - 1" by simp
  from assms(2) have kn: "kind s \<noteq> ''nearest''" by (auto simp: s)
  from assms(4) have xn: "x_array s \<noteq> []" by (simp add: s)
  from construct_cache_poly[OF kn xn, of q] obtain js ds where
    c: "construct_cache s q
            = Inr (s\<lparr>return_float := (if length (atleast_1d q) = 1 then True else return_float s),
                     cached := True, idxs := Some js, diffs' := Some ds\<rparr>)"
    and l: "length js = length (atleast_1d q)"
    and n: "\<forall>i<length (atleast_1d q). bracket (x_array s) (atleast_1d q ! i) = Inr (js ! i)" by blast
  from assms(7) obtain i where i: "i < length (atleast_1d q)" "atleast_1d q ! i = v"
    by (auto simp: in_set_conv_nth)
  from n i have "bracket x v = Inr (js ! i)" by (auto simp: s)
  with bracket_above[OF assms(3,4,8)] have "js ! i = length x - 1" by simp
  with i(1) l have "length x - 1 \<in> set js" by (metis nth_mem)
  with r have "\<not> list_all (\<lambda>j. j < length r) js" by (auto simp: list_all_iff)
  then have "take_idx r js = Inl IndexError" by (simp add: take_idx_def)
  then have p: "call_poly (s\<lparr>return_float := (if length (atleast_1d q) = 1 then True else return_float s),
                     cached := True, idxs := Some js, diffs' := Some ds\<rparr>) = Inl IndexError"
    by (simp add: call_poly_def s d rows)
  from assms(2) have "evaluate (s\<lparr>return_float := (if length (atleast_1d q) = 1 then True else return_float s),
                     cached := True, idxs := Some js, diffs' := Some ds\<rparr>) = Inl IndexError"
    using p by (auto simp: evaluate_def call_linear_def call_cubic_def s)
  then have "finish (s\<lparr>return_float := (if length (atleast_1d q) = 1 then True else return_float s),
                     cached := True, idxs := Some js, diffs' := Some ds\<rparr>) = Inl IndexError"
    by (simp add: finish_def)
  with c show ?thesis by (simp add: call_def update_values_def s)
qed

theorem above_last_knot_witness:
  "init spec_build [0, 1, 2, 3] [0, 1, 0, 1] ''linear'' = Inr linear_0101
   \<and> sorted_wrt (<) [0, 1, 2, 3 :: real]
   \<and> data linear_0101 = Some (Grid [[0, 1, 0], [1, - 1, 1]])
   \<and> list_all (\<lambda>r. length r = length [0, 1, 2, 3 :: real] - 1) [[0, 1, 0], [1, - 1, 1 :: real]]
   \<and> last [0, 1, 2, 3] < (7/2 :: real)
   \<and> call spec_build linear_0101 (Scalar (7/2)) None True = Inl IndexError"
proof -
  have h1: "init spec_build [0, 1, 2, 3] [0, 1, 0, 1] ''linear'' = Inr linear_0101" by code_simp
  have h2: "''linear'' = ''linear'' \<or> ''linear'' = ''cubic''" by simp
  have h3: "sorted_wrt (<) [0, 1, 2, 3 :: real]" by simp
  have h4: "[0, 1, 2, 3 :: real] \<noteq> []" by simp
  have h5: "data linear_0101 = Some (Grid [[0, 1, 0], [1, - 1, 1]])" by (simp add: linear_0101_def)
  have h6: "list_all (\<lambda>r. length r = length [0, 1, 2, 3 :: real] - 1) [[0, 1, 0], [1, - 1, 1 :: real]]"
    by simp
  have h7: "7/2 \<in> set (atleast_1d (Scalar (7/2)))" by simp
  have h8: "last [0, 1, 2, 3] < (7/2 :: real)" by simp
  from above_last_knot [OF h1 h2 h3 h4 h5 h6 h7 h8, of True] h1 h3 h5 h6 h8 show ?thesis by blast
qed

subsection \<open>Construction\<close>

text \<open>
  Claim C7. A kind other than nearest, linear and cubic makes the constructor raise
  \<open>ValueError\<close> before any attribute but \<open>return_float\<close> and \<open>bk\<close> is set and before
  anything is built: the result is the error for every builder, and there is no object.
  With a valid kind the constructor fails exactly when building the coefficients fails;
  otherwise the object holds the coefficients built from the knots and values for its
  kind, the cache-valid flag is false and there are no bracket indices and no offset
  powers, so the first call runs the locator whatever \<open>use_cache\<close> is.
\<close>

theorem construction:
  "(k \<notin> {''nearest'', ''linear'', ''cubic''} \<longrightarrow> init B x y k = Inl ValueError)
   \<and> (k \<in> {''nearest'', ''linear'', ''cubic''} \<longrightarrow>
        (\<forall>e. init B x y k = Inl e \<longleftrightarrow>
              build B \<lparr>return_float = False, x_array = x, y_array = y, data = None, kind = k,
                       cached = False, idxs = None, diffs' = None\<rparr> = Inl e)
        \<and> (\<forall>s. init B x y k = Inr s \<longrightarrow>
              build B s = Inr (data s) \<and> data s \<noteq> None
              \<and> x_array s = x \<and> y_array s = y \<and> kind s = k \<and> \<not> return_float s
              \<and> \<not> cached s \<and> idxs s = None \<and> diffs' s = None
              \<and> (\<forall>q u. call B s q None u
                     = (case construct_cache s q of Inl e \<Rightarrow> Inl e | Inr t \<Rightarrow> finish t))))"
proof (intro conjI impI allI)
  show "init B x y k = Inl ValueError" if "k \<notin> {''nearest'', ''linear'', ''cubic''}"
    using that by (simp add: init_def allowed_kinds_def)
next
  fix e assume k: "k \<in> {''nearest'', ''linear'', ''cubic''}"
  show "init B x y k = Inl e \<longleftrightarrow>
              build B \<lparr>return_float = False, x_array = x, y_array = y, data = None, kind = k,
                       cached = False, idxs = None, diffs' = None\<rparr> = Inl e"
    using k by (auto simp: init_def allowed_kinds_def kind_setter_def Let_def split: sum.splits)
next
  fix s assume k: "k \<in> {''nearest'', ''linear'', ''cubic''}" and i: "init B x y k = Inr s"
  from init_Inr(2)[OF i] obtain d where
    b: "build B \<lparr>return_float = False, x_array = x, y_array = y, data = None, kind = k,
                cached = False, idxs = None, diffs' = None\<rparr> = Inr d"
    and s: "s = \<lparr>return_float = False, x_array = x, y_array = y, data = d, kind = k,
                cached = False, idxs = None, diffs' = None\<rparr>" by blast
  have "build B s = build B \<lparr>return_float = False, x_array = x, y_array = y, data = None, kind = k,
                cached = False, idxs = None, diffs' = None\<rparr>"
    by (rule build_cong) (simp_all add: s)
  then show "build B s = Inr (data s)" by (simp add: b) (simp add: s)
  show "data s \<noteq> None"
    using b k by (auto simp: s build_def stack_def asarray_def split: sum.splits if_splits prod.splits)
  show "x_array s = x" "y_array s = y" "kind s = k" "\<not> return_float s" "\<not> cached s"
    "idxs s = None" "diffs' s = None" by (simp_all add: s)
  show "call B s q None u = (case construct_cache s q of Inl e \<Rightarrow> Inl e | Inr t \<Rightarrow> finish t)" for q u
    by (simp add: call_def update_values_def s)
qed

theorem construction_witness:
  "init spec_build [0, 1, 2, 3] [0, 1, 0, 1] ''quadratic'' = Inl ValueError
   \<and> init spec_build [0, 1, 2, 3] [0, 1, 0, 1] ''linear'' = Inr linear_0101
   \<and> build spec_build linear_0101 = Inr (data linear_0101)
   \<and> \<not> cached linear_0101
   \<and> call spec_build linear_0101 (Scalar (1/2)) None True
        = (case construct_cache linear_0101 (Scalar (1/2)) of Inl e \<Rightarrow> Inl e | Inr t \<Rightarrow> finish t)"
proof -
  have h1: "''quadratic'' \<notin> {''nearest'', ''linear'', ''cubic''}" by simp
  have h2: "''linear'' \<in> {''nearest'', ''linear'', ''cubic''}" by simp
  have h3: "init spec_build [0, 1, 2, 3] [0, 1, 0, 1] ''linear'' = Inr linear_0101" by code_simp
  from construction [of "''quadratic''" spec_build "[0, 1, 2, 3]" "[0, 1, 0, 1]"] h1
  have a: "init spec_build [0, 1, 2, 3] [0, 1, 0, 1] ''quadratic'' = Inl ValueError" by blast
  from construction [of "''linear''" spec_build "[0, 1, 2, 3]" "[0, 1, 0, 1]"] h2 h3
  have b: "build spec_build linear_0101 = Inr (data linear_0101) \<and> \<not> cached linear_0101
     \<and> call spec_build linear_0101 (Scalar (1/2)) None True
        = (case construct_cache linear_0101 (Scalar (1/2)) of Inl e \<Rightarrow> Inl e | Inr t \<Rightarrow> finish t)"
    by blast
  from a b h3 show ?thesis by blast
qed

subsection \<open>Value arrays of another length than the knots\<close>

text \<open>
  Claim C8, as the code has it. Neither \<open>__init__\<close> nor \<open>__call__\<close> compares the length
  of the value array with the number of knots. For kind nearest, construction and value
  update accept a value array of any length, which becomes the coefficient table as it is.
  For the other kinds an error at construction or at a value update is an error of
  \<open>build\<close>, and \<open>build\<close> fails only with the error of the coefficient builder or when
  the arrays it returns do not form a two-dimensional array.
\<close>

theorem no_length_validation:
  "init B x y ''nearest''
      = Inr \<lparr>return_float = False, x_array = x, y_array = y, data = Some (Row y),
             kind = ''nearest'', cached = False, idxs = None, diffs' = None\<rparr>
   \<and> (kind s = ''nearest'' \<longrightarrow>
        update_values B s (Some v) = Inr (s\<lparr>y_array := v, data := Some (Row v)\<rparr>))
   \<and> (k \<in> set allowed_kinds \<and> init B x y k = Inl e \<longrightarrow>
        build B \<lparr>return_float = False, x_array = x, y_array = y, data = None, kind = k,
                 cached = False, idxs = None, diffs' = None\<rparr> = Inl e)
   \<and> (update_values B s (Some v) = Inl e \<longrightarrow> build B (s\<lparr>y_array := v\<rparr>) = Inl e)
   \<and> (build B s = Inl e \<longrightarrow>
        (kind s = ''linear''
           \<and> (build_linear_interpolant B (x_array s) (y_array s) = Inl e
               \<or> e = ValueError
                 \<and> (\<exists>aa bb. build_linear_interpolant B (x_array s) (y_array s) = Inr (aa, bb)
                       \<and> length aa \<noteq> length bb)))
       \<or> (kind s = ''cubic''
           \<and> (build_natural_cubic_spline B (x_array s) (y_array s) = Inl e
               \<or> e = ValueError
                 \<and> (\<exists>rows. build_natural_cubic_spline B (x_array s) (y_array s) = Inr rows
                       \<and> (rows = [] \<or> \<not> rect rows)))))"
proof (intro conjI impI)
  show "init B x y ''nearest''
      = Inr \<lparr>return_float = False, x_array = x, y_array = y, data = Some (Row y),
             kind = ''nearest'', cached = False, idxs = None, diffs' = None\<rparr>"
    by (simp add: init_def allowed_kinds_def kind_setter_def build_def)
  show "update_values B s (Some v) = Inr (s\<lparr>y_array := v, data := Some (Row v)\<rparr>)"
    if "kind s = ''nearest''"
    using that by (simp add: update_values_def build_def)
  show "build B \<lparr>return_float = False, x_array = x, y_array = y, data = None, kind = k,
                 cached = False, idxs = None, diffs' = None\<rparr> = Inl e"
    if "k \<in> set allowed_kinds \<and> init B x y k = Inl e"
    using that by (auto simp: init_def kind_setter_def Let_def split: sum.splits)
  show "build B (s\<lparr>y_array := v\<rparr>) = Inl e" if "update_values B s (Some v) = Inl e"
    using that by (auto simp: update_values_def Let_def split: sum.splits)
  show "(kind s = ''linear''
           \<and> (build_linear_interpolant B (x_array s) (y_array s) = Inl e
               \<or> e = ValueError
                 \<and> (\<exists>aa bb. build_linear_interpolant B (x_array s) (y_array s) = Inr (aa, bb)
                       \<and> length aa \<noteq> length bb)))
       \<or> (kind s = ''cubic''
           \<and> (build_natural_cubic_spline B (x_array s) (y_array s) = Inl e
               \<or> e = ValueError
                 \<and> (\<exists>rows. build_natural_cubic_spline B (x_array s) (y_array s) = Inr rows
                       \<and> (rows = [] \<or> \<not> rect rows))))"
    if "build B s = Inl e"
    using that by (rule build_Inl)
qed

theorem no_length_validation_witness:
  "init spec_build [0, 1, 2] [5, 6] ''nearest''
      = Inr \<lparr>return_float = False, x_array = [0, 1, 2], y_array = [5, 6], data = Some (Row [5, 6]),
             kind = ''nearest'', cached = False, idxs = None, diffs' = None\<rparr>
   \<and> kind nearest_010 = ''nearest''
   \<and> update_values spec_build nearest_010 (Some [7])
        = Inr (nearest_010\<lparr>y_array := [7], data := Some (Row [7])\<rparr>)
   \<and> ''linear'' \<in> set allowed_kinds
   \<and> init spec_build [0, 1, 2] [5, 6] ''linear'' = Inl ValueError
   \<and> build spec_build \<lparr>return_float = False, x_array = [0, 1, 2], y_array = [5, 6], data = None,
                 kind = ''linear'', cached = False, idxs = None, diffs' = None\<rparr> = Inl ValueError"
proof -
  have h1: "kind nearest_010 = ''nearest''" by (simp add: nearest_010_def)
  have h2: "''linear'' \<in> set allowed_kinds" by (simp add: allowed_kinds_def)
  have h3: "init spec_build [0, 1, 2] [5, 6] ''linear'' = Inl ValueError" by code_simp
  note t = no_length_validation [of spec_build "[0, 1, 2]" "[5, 6]" nearest_010 "[7]" "''linear''" ValueError]
  from t have a: "init spec_build [0, 1, 2] [5, 6] ''nearest''
      = Inr \<lparr>return_float = False, x_array = [0, 1, 2], y_array = [5, 6], data = Some (Row [5, 6]),
             kind = ''nearest'', cached = False, idxs = None, diffs' = None\<rparr>" by blast
  from t h1 have b: "update_values spec_build nearest_010 (Some [7])
        = Inr (nearest_010\<lparr>y_array := [7], data := Some (Row [7])\<rparr>)" by blast
  from t h2 h3 have c: "build spec_build \<lparr>return_float = False, x_array = [0, 1, 2], y_array = [5, 6],
                 data = None, kind = ''linear'', cached = False, idxs = None, diffs' = None\<rparr>
        = Inl ValueError" by blast
  from a b c h1 h2 h3 show ?thesis by blast
qed

text \<open>
  The claim as stated fails: three knots with two values construct a nearest interpolant,
  and a value update with a single value on three knots is evaluated without an error.
\<close>

theorem length_validation_counterexample:
  "init spec_build [0, 1, 2] [5, 6] ''nearest''
      = Inr \<lparr>return_float = False, x_array = [0, 1, 2], y_array = [5, 6], data = Some (Row [5, 6]),
             kind = ''nearest'', cached = False, idxs = None, diffs' = None\<rparr>
   \<and> init spec_build [0, 1, 2] [0, 1, 0] ''nearest'' = Inr nearest_010
   \<and> call spec_build nearest_010 (Scalar (2/5)) (Some [7]) True
        = Inr (Num 7, nearest_010\<lparr>return_float := True, y_array := [7], data := Some (Row [7]),
                                   cached := True, idxs := Some [0]\<rparr>)"
  by code_simp

subsection \<open>What a value update leaves alone\<close>

text \<open>
  Claim C9. The value update of \<open>__call__\<close> (its first statement, taken when new values
  are passed) replaces the value array and the coefficient table, built from the new
  values, and nothing else: bracket indices, offset powers, the cache-valid flag and the
  scalar-result flag are as before. With a valid cache and \<open>use_cache=True\<close> this is
  also all that the whole call changes, so the cached locator data survives the update.
\<close>

theorem value_update_frame:
  "(update_values B s (Some v) = Inr t \<longrightarrow>
      build B (s\<lparr>y_array := v\<rparr>) = Inr (data t) \<and> t = s\<lparr>y_array := v, data := data t\<rparr>
      \<and> idxs t = idxs s \<and> diffs' t = diffs' s \<and> cached t = cached s
      \<and> return_float t = return_float s)
   \<and> (cached s \<and> call B s q (Some v) True = Inr (out, t) \<longrightarrow>
      build B (s\<lparr>y_array := v\<rparr>) = Inr (data t) \<and> t = s\<lparr>y_array := v, data := data t\<rparr>
      \<and> idxs t = idxs s \<and> diffs' t = diffs' s \<and> cached t = cached s
      \<and> return_float t = return_float s)"
proof -
  have u: "build B (s\<lparr>y_array := v\<rparr>) = Inr (data t) \<and> t = s\<lparr>y_array := v, data := data t\<rparr>
      \<and> idxs t = idxs s \<and> diffs' t = diffs' s \<and> cached t = cached s
      \<and> return_float t = return_float s" if "update_values B s (Some v) = Inr t" for t
  proof -
    from that obtain d where "build B (s\<lparr>y_array := v\<rparr>) = Inr d" "t = s\<lparr>y_array := v, data := d\<rparr>"
      by (rule update_values_Some)
    then show ?thesis by simp
  qed
  have "update_values B s (Some v) = Inr t" if c: "cached s" and r: "call B s q (Some v) True = Inr (out, t)"
  proof -
    from r obtain s1 where s1: "update_values B s (Some v) = Inr s1"
      by (auto simp: call_def split: sum.splits)
    from u[OF s1] c have "cached s1" by simp
    with r s1 have "finish s1 = Inr (out, t)" by (simp add: call_def)
    then have "t = s1" by (rule finish_state)
    with s1 show ?thesis by simp
  qed
  with u show ?thesis by blast
qed

theorem value_update_frame_witness:
  "update_values spec_build (located linear_0101 False [0, 2] [[1, 1], [1/2, 1/2]]) (Some [1, 0, 1, 0])
     = Inr ((located linear_0101 False [0, 2] [[1, 1], [1/2, 1/2]])
              \<lparr>y_array := [1, 0, 1, 0], data := Some (Grid [[1, 0, 1], [- 1, 1, - 1]])\<rparr>)
   \<and> cached (located linear_0101 False [0, 2] [[1, 1], [1/2, 1/2]])
   \<and> call spec_build (located linear_0101 False [0, 2] [[1, 1], [1/2, 1/2]])
        (Array [1/2, 5/2]) (Some [1, 0, 1, 0]) True
     = Inr (Vec [1/2, 1/2], (located linear_0101 False [0, 2] [[1, 1], [1/2, 1/2]])
              \<lparr>y_array := [1, 0, 1, 0], data := Some (Grid [[1, 0, 1], [- 1, 1, - 1]])\<rparr>)
   \<and> idxs ((located linear_0101 False [0, 2] [[1, 1], [1/2, 1/2]])
              \<lparr>y_array := [1, 0, 1, 0], data := Some (Grid [[1, 0, 1], [- 1, 1, - 1]])\<rparr>)
       = idxs (located linear_0101 False [0, 2] [[1, 1], [1/2, 1/2]])
   \<and> diffs' ((located linear_0101 False [0, 2] [[1, 1], [1/2, 1/2]])
              \<lparr>y_array := [1, 0, 1, 0], data := Some (Grid [[1, 0, 1], [- 1, 1, - 1]])\<rparr>)
       = diffs' (located linear_0101 False [0, 2] [[1, 1], [1/2, 1/2]])"
proof -
  let ?s = "located linear_0101 False [0, 2] [[1, 1], [1/2, 1/2]]"
  let ?t = "?s\<lparr>y_array := [1, 0, 1, 0], data := Some (Grid [[1, 0, 1], [- 1, 1, - 1]])\<rparr>"
  have h1: "update_values spec_build ?s (Some [1, 0, 1, 0]) = Inr ?t" by code_simp
  have h2: "cached ?s" by (simp add: located_def)
  have h3: "call spec_build ?s (Array [1/2, 5/2]) (Some [1, 0, 1, 0]) True = Inr (Vec [1/2, 1/2], ?t)"
    by code_simp
  from value_update_frame [of spec_build ?s "[1, 0, 1, 0]" ?t "Array [1/2, 5/2]" "Vec [1/2, 1/2]"] h2 h3
  have "idxs ?t = idxs ?s \<and> diffs' ?t = diffs' ?s" by blast
  with h1 h2 h3 show ?thesis by blast
qed

subsection \<open>Assigning a new kind\<close>

text \<open>
  Claim C10. The setter of \<open>kind\<close> stores the new kind and the coefficient table built
  for it and changes nothing else: the cache-valid flag, the bracket indices, the offset
  powers and the scalar-result flag stay. If the cache was valid, the next call with
  \<open>use_cache=True\<close> therefore does not run the locator: it evaluates the table of the new
  kind on the bracket indices and offset powers stored under the previous kind.
\<close>

theorem kind_setter_frame:
  assumes "kind_setter B s k = Inr t"
  shows "kind t = k \<and> build B (s\<lparr>kind := k\<rparr>) = Inr (data t)
     \<and> t = s\<lparr>kind := k, data := data t\<rparr>
     \<and> cached t = cached s \<and> idxs t = idxs s \<and> diffs' t = diffs' s
     \<and> return_float t = return_float s
     \<and> (cached s \<longrightarrow> call B t q None True = finish t)
     \<and> (\<forall>out t'. cached s \<and> call B t q None True = Inr (out, t') \<longrightarrow>
           t' = t \<and> idxs t' = idxs s \<and> diffs' t' = diffs' s)"
proof -
  from assms obtain d where b: "build B (s\<lparr>kind := k\<rparr>) = Inr d" and t: "t = s\<lparr>kind := k, data := d\<rparr>"
    by (rule kind_setter_Inr)
  have c: "call B t q None True = finish t" if "cached s"
    using that by (simp add: call_def update_values_def t)
  have f: "kind t = k \<and> build B (s\<lparr>kind := k\<rparr>) = Inr (data t)
     \<and> t = s\<lparr>kind := k, data := data t\<rparr>
     \<and> cached t = cached s \<and> idxs t = idxs s \<and> diffs' t = diffs' s
     \<and> return_float t = return_float s"
    by (simp add: t b)
  have "t' = t \<and> idxs t' = idxs s \<and> diffs' t' = diffs' s"
    if "cached s" "call B t q None True = Inr (out, t')" for out t'
  proof -
    from that c have "finish t = Inr (out, t')" by simp
    then have "t' = t" by (rule finish_state)
    with f show ?thesis by simp
  qed
  with c f show ?thesis by blast
qed

text \<open>
  A run: the linear interpolant over the knots \<open>0, 1, 2, 3\<close> has located the queries
  \<open>[9/10, 29/10]\<close> in the intervals \<open>0\<close> and \<open>2\<close>. After the kind is set to nearest the
  next call returns the values at the knots \<open>0\<close> and \<open>2\<close>, the stored bracket indices,
  which are not the knots nearest to the queries.
\<close>

theorem kind_setter_frame_witness:
  "kind_setter spec_build (located linear_0101 False [0, 2] [[1, 1], [9/10, 9/10]]) ''nearest''
     = Inr ((located linear_0101 False [0, 2] [[1, 1], [9/10, 9/10]])
              \<lparr>kind := ''nearest'', data := Some (Row [0, 1, 0, 1])\<rparr>)
   \<and> cached (located linear_0101 False [0, 2] [[1, 1], [9/10, 9/10]])
   \<and> call spec_build ((located linear_0101 False [0, 2] [[1, 1], [9/10, 9/10]])
              \<lparr>kind := ''nearest'', data := Some (Row [0, 1, 0, 1])\<rparr>) (Array [9/10, 29/10]) None True
     = Inr (Vec [0, 0], (located linear_0101 False [0, 2] [[1, 1], [9/10, 9/10]])
              \<lparr>kind := ''nearest'', data := Some (Row [0, 1, 0, 1])\<rparr>)
   \<and> idxs ((located linear_0101 False [0, 2] [[1, 1], [9/10, 9/10]])
              \<lparr>kind := ''nearest'', data := Some (Row [0, 1, 0, 1])\<rparr>) = Some [0, 2]
   \<and> diffs' ((located linear_0101 False [0, 2] [[1, 1], [9/10, 9/10]])
              \<lparr>kind := ''nearest'', data := Some (Row [0, 1, 0, 1])\<rparr>) = Some [[1, 1], [9/10, 9/10]]"
proof -
  let ?s = "located linear_0101 False [0, 2] [[1, 1], [9/10, 9/10]]"
  let ?t = "?s\<lparr>kind := ''nearest'', data := Some (Row [0, 1, 0, 1])\<rparr>"
  have h1: "kind_setter spec_build ?s ''nearest'' = Inr ?t" by code_simp
  have h2: "cached ?s" by (simp add: located_def)
  have h3: "finish ?t = Inr (Vec [0, 0], ?t)" by code_simp
  have h4: "idxs ?s = Some [0, 2] \<and> diffs' ?s = Some [[1, 1], [9/10, 9/10]]"
    by (simp add: located_def)
  note f = kind_setter_frame [OF h1, of "Array [9/10, 29/10]"]
  from f h2 h3 have c: "call spec_build ?t (Array [9/10, 29/10]) None True = Inr (Vec [0, 0], ?t)"
    by simp
  from f h4 have "idxs ?t = Some [0, 2] \<and> diffs' ?t = Some [[1, 1], [9/10, 9/10]]" by simp
  with h1 h2 c show ?thesis by blast
qed

end
